theory Spec2Isabelle
  imports Complex_Main "HOL-Library.Multiset" "HOL-Library.Sublist" "HOL-Library.Char_ord"
    "HOL-Library.List_Lexorder" "HOL-Library.Product_Lexorder"
begin

section \<open>The aggregation pipeline of the fixed income dashboard\<close>

text \<open>
  The development embeds \<^verbatim>\<open>process_data\<close> of \<^verbatim>\<open>app.py\<close>. The function is a chain of
  pandas calls, so the embedding has two layers: the pandas operations the chain uses
  (assignment of column names, boolean-mask selection, \<^verbatim>\<open>to_numeric\<close>, \<^verbatim>\<open>sort_values\<close>,
  \<^verbatim>\<open>nlargest\<close>, \<^verbatim>\<open>groupby(...).sum()\<close>), each with the behaviour pandas 2 gives it under the
  arguments the source passes, and \<^verbatim>\<open>process_data\<close> itself, written call by call.

  What the numeric runtime does is not fixed by the source and is a parameter of the
  model: how a text is read as a number, how a number of the sheet is stored, how numpy's
  default sort orders equal values, and how a column of numbers is summed. The numbers
  themselves are the values of a linearly ordered type with a zero; 64-bit floats other
  than \<^verbatim>\<open>NaN\<close> are such a type, infinities included, and so are 64-bit integers. \<^verbatim>\<open>NaN\<close> is
  the absent value \<open>None\<close>. A sum is taken to be a number (a sum of both infinities, which
  is \<^verbatim>\<open>NaN\<close>, is outside the model). Strings are byte strings.
\<close>

subsection \<open>Cells, frames and rows\<close>

text \<open>
  A cell read from the sheet is a number, a text or empty (pandas: \<^verbatim>\<open>NaN\<close>).
\<close>

datatype cell = Num rat | Txt string | Blank

text \<open>
  A data frame as \<^verbatim>\<open>read_excel\<close> returns it: the column names and the data rows. A frame is
  rectangular: every row has one cell per column.
\<close>

record frame =
  columns :: "string list"
  rows :: "cell list list"

definition rectangular :: "frame \<Rightarrow> bool" where
  "rectangular df = list_all (\<lambda>r. length r = length (columns df)) (rows df)"

text \<open>
  A row under the six names that \<^verbatim>\<open>process_data\<close> assigns. The type of the weight is a
  parameter: a cell before \<^verbatim>\<open>to_numeric\<close>, an optional number after it.
\<close>

record 'w row =
  Security :: cell
  Weight :: 'w
  Rating :: cell
  Country :: cell
  Issuer :: cell
  SecurityType :: cell

datatype error = ValueError nat nat

subsection \<open>The numeric runtime\<close>

text \<open>
  \<open>str_to_float\<close> reads a text as a number, or fails; \<open>num_to_float\<close> stores a number of the
  sheet in the column; \<open>argsort\<close> is numpy's \<^verbatim>\<open>argsort\<close> with the default kind
  (\<^verbatim>\<open>quicksort\<close>), which returns the positions of the values in ascending order of value
  and promises no order among equal values; \<open>fsum\<close> adds up the numbers of a group.
\<close>

record 'n runtime =
  str_to_float :: "string \<Rightarrow> 'n option"
  num_to_float :: "rat \<Rightarrow> 'n"
  argsort :: "'n list \<Rightarrow> nat list"
  fsum :: "'n list \<Rightarrow> 'n"

text \<open>
  What numpy promises of \<^verbatim>\<open>argsort\<close>: the result is a permutation of the positions, and
  the values read in that order ascend.
\<close>

definition argsort_ok :: "('n::linorder list \<Rightarrow> nat list) \<Rightarrow> bool" where
  "argsort_ok qs = (\<forall>xs. mset (qs xs) = mset [0..<length xs] \<and> sorted (map (\<lambda>i. xs ! i) (qs xs)))"

subsection \<open>The pandas operations\<close>

text \<open>
  \<^verbatim>\<open>df.columns = names\<close>: the names replace the old ones, whatever those were; the
  assignment is refused when the number of names is not the number of columns.
\<close>

definition set_columns :: "string list \<Rightarrow> frame \<Rightarrow> error + frame" where
  "set_columns names df =
     (if length names \<noteq> length (columns df) then Inl (ValueError (length (columns df)) (length names))
      else Inr (df\<lparr>columns := names\<rparr>))"

text \<open>
  \<^verbatim>\<open>columns.get_loc(name)\<close>: the position of a column name. (For a name that is not there
  pandas raises a \<^verbatim>\<open>KeyError\<close>; \<^verbatim>\<open>process_data\<close> asks only for names it has just assigned.)
\<close>

definition get_loc :: "string list \<Rightarrow> string \<Rightarrow> nat" where
  "get_loc names name = length (takeWhile (\<lambda>m. m \<noteq> name) names)"

text \<open>
  \<^verbatim>\<open>df[mask]\<close>: the rows at which the boolean mask is true, in their order.
\<close>

definition select_mask :: "'a list \<Rightarrow> bool list \<Rightarrow> 'a list" where
  "select_mask xs bs = map fst (filter snd (zip xs bs))"

text \<open>
  \<^verbatim>\<open>pd.to_numeric(..., errors='coerce')\<close> on one cell: a number is stored, an empty cell
  stays \<^verbatim>\<open>NaN\<close>, a text is handed to the float parser and becomes \<^verbatim>\<open>NaN\<close> when that fails.
\<close>

fun to_numeric :: "'n runtime \<Rightarrow> cell \<Rightarrow> 'n option" where
  "to_numeric rt (Num x) = Some (num_to_float rt x)"
| "to_numeric rt (Txt s) = str_to_float rt s"
| "to_numeric rt Blank = None"

text \<open>
  The entries of a series with and without a value (\<^verbatim>\<open>dropna\<close> and its complement), and
  the value as a number.
\<close>

definition dropna :: "('a \<Rightarrow> 'n option) \<Rightarrow> 'a list \<Rightarrow> 'a list" where
  "dropna v xs = filter (\<lambda>x. v x \<noteq> None) xs"

definition nan_index :: "('a \<Rightarrow> 'n option) \<Rightarrow> 'a list \<Rightarrow> 'a list" where
  "nan_index v xs = filter (\<lambda>x. v x = None) xs"

definition num :: "('a \<Rightarrow> 'n option) \<Rightarrow> 'a \<Rightarrow> 'n::zero" where
  "num v x = (case v x of Some w \<Rightarrow> w | None \<Rightarrow> 0)"

text \<open>\<^verbatim>\<open>items[indexer]\<close>: the entries at the given positions, in the order of the positions.\<close>

definition take_at :: "'a list \<Rightarrow> nat list \<Rightarrow> 'a list" where
  "take_at xs idx = map (\<lambda>i. xs ! i) idx"

text \<open>
  \<^verbatim>\<open>sort_values(ascending=...)\<close> with the default \<^verbatim>\<open>kind='quicksort'\<close> and
  \<^verbatim>\<open>na_position='last'\<close>: the entries with a value are put in the order \<^verbatim>\<open>argsort\<close> gives,
  the others follow in their order. Descending order is obtained as pandas does it:
  reverse the entries, sort ascending, reverse the result.
\<close>

definition sort_values ::
  "('n list \<Rightarrow> nat list) \<Rightarrow> bool \<Rightarrow> ('a \<Rightarrow> 'n::zero option) \<Rightarrow> 'a list \<Rightarrow> 'a list" where
  "sort_values qs ascending v xs =
     (let non_nans = dropna v xs; nans = nan_index v xs
      in (if ascending then take_at non_nans (qs (map (num v) non_nans))
          else rev (take_at (rev non_nans) (qs (map (num v) (rev non_nans))))) @ nans)"

text \<open>
  The order in which \<^verbatim>\<open>nlargest\<close> ranks: pandas negates the values and sorts them with
  \<^verbatim>\<open>kind='mergesort'\<close>, a stable sort, so the entries come out in descending order of
  value, equal values in their order.
\<close>

definition mergesort_desc :: "('a \<Rightarrow> 'n::linorder) \<Rightarrow> 'a list \<Rightarrow> 'a list" where
  "mergesort_desc f xs = rev (sort_key f (rev xs))"

text \<open>
  \<^verbatim>\<open>nlargest(n)\<close> with \<^verbatim>\<open>keep='first'\<close>. When \<open>n\<close> covers the whole series, pandas sorts
  it with \<^verbatim>\<open>sort_values(ascending=False)\<close> and takes the head. Otherwise it ranks the
  entries that have a value with the stable sort, keeps the first \<open>n\<close>, appends the
  entries without a value and cuts the result to \<open>n\<close> again. In both branches entries
  without a value are not dropped: they fill the places that the entries with a value
  leave free (the behaviour of pandas 2; early versions of pandas dropped them). The
  selection of the candidates by the \<open>n\<close>-th value, which pandas runs before the stable
  sort to keep it short, does not change the result and is left out.
\<close>

definition nlargest ::
  "('n list \<Rightarrow> nat list) \<Rightarrow> nat \<Rightarrow> ('a \<Rightarrow> 'n::{linorder,zero} option) \<Rightarrow> 'a list \<Rightarrow> 'a list" where
  "nlargest qs n v xs =
     (if n = 0 then []
      else if length xs \<le> n then take n (sort_values qs False v xs)
      else (let dropped = dropna v xs;
                inds = take (min n (length dropped)) (mergesort_desc (num v) dropped)
            in take n (inds @ nan_index v xs)))"

text \<open>
  The order of group keys under \<^verbatim>\<open>groupby(sort=True)\<close>: numbers before texts, numbers by
  value, texts as Python compares strings.
\<close>

fun cell_key :: "cell \<Rightarrow> nat \<times> rat \<times> string" where
  "cell_key (Num x) = (0, x, [])"
| "cell_key (Txt s) = (1, 0, s)"
| "cell_key Blank = (2, 0, [])"

text \<open>
  \<^verbatim>\<open>df.groupby(col)\<close>: the distinct keys in sorted order, each with its rows in their
  order; rows whose key is empty are left out (\<^verbatim>\<open>dropna=True\<close>).
\<close>

definition groupby :: "('w row \<Rightarrow> cell) \<Rightarrow> 'w row list \<Rightarrow> (cell \<times> 'w row list) list" where
  "groupby col df =
     map (\<lambda>k. (k, filter (\<lambda>r. col r = k) df))
       (sort_key cell_key (remdups (filter (\<lambda>k. k \<noteq> Blank) (map col df))))"

text \<open>
  The sum of a group: the weights that are present are added up (\<^verbatim>\<open>skipna\<close>); a group
  with no present weight has the sum 0 (\<^verbatim>\<open>min_count=0\<close>).
\<close>

definition group_total :: "('n list \<Rightarrow> 'n) \<Rightarrow> 'n list \<Rightarrow> 'n::zero" where
  "group_total fs ws = (if ws = [] then 0 else fs ws)"

definition groupby_sum ::
  "('n list \<Rightarrow> 'n) \<Rightarrow> ('n option row \<Rightarrow> cell) \<Rightarrow> 'n option row list \<Rightarrow> (cell \<times> 'n::zero) list" where
  "groupby_sum fs col df =
     map (\<lambda>(k, g). (k, group_total fs (List.map_filter Weight g))) (groupby col df)"

subsection \<open>process_data\<close>

definition new_columns :: "string list" where
  "new_columns = [''Security'', ''Weight'', ''Rating'', ''Country'', ''Issuer'', ''SecurityType'']"

text \<open>A row of the frame, its cells reached by column name.\<close>

definition row_of :: "string list \<Rightarrow> cell list \<Rightarrow> cell row" where
  "row_of names cs =
     \<lparr>Security = cs ! get_loc names ''Security'', Weight = cs ! get_loc names ''Weight'',
      Rating = cs ! get_loc names ''Rating'', Country = cs ! get_loc names ''Country'',
      Issuer = cs ! get_loc names ''Issuer'', SecurityType = cs ! get_loc names ''SecurityType''\<rparr>"

definition filter_corporate :: "'w row list \<Rightarrow> 'w row list" where
  "filter_corporate df =
     select_mask df (map (\<lambda>r. SecurityType r = Txt ''Corporate Bonds'') df)"

definition coerce_weight :: "'n runtime \<Rightarrow> cell row \<Rightarrow> 'n option row" where
  "coerce_weight rt r =
     \<lparr>Security = Security r, Weight = to_numeric rt (Weight r), Rating = Rating r,
      Country = Country r, Issuer = Issuer r, SecurityType = SecurityType r\<rparr>"

definition top_holdings ::
  "'n::{linorder,zero} runtime \<Rightarrow> 'n option row list \<Rightarrow> (cell \<times> 'n option) list" where
  "top_holdings rt df = map (\<lambda>r. (Security r, Weight r)) (nlargest (argsort rt) 10 Weight df)"

definition country_exposure ::
  "'n::{linorder,zero} runtime \<Rightarrow> 'n option row list \<Rightarrow> (cell \<times> 'n) list" where
  "country_exposure rt df =
     sort_values (argsort rt) False (\<lambda>p. Some (snd p)) (groupby_sum (fsum rt) Country df)"

definition rating_exposure ::
  "'n::{linorder,zero} runtime \<Rightarrow> 'n option row list \<Rightarrow> (cell \<times> 'n) list" where
  "rating_exposure rt df =
     sort_values (argsort rt) False (\<lambda>p. Some (snd p)) (groupby_sum (fsum rt) Rating df)"

definition top_issuers ::
  "'n::{linorder,zero} runtime \<Rightarrow> 'n option row list \<Rightarrow> (cell \<times> 'n) list" where
  "top_issuers rt df =
     sort_values (argsort rt) True (\<lambda>p. Some (snd p))
       (nlargest (argsort rt) 10 (\<lambda>p. Some (snd p)) (groupby_sum (fsum rt) Issuer df))"

definition process_data ::
  "'n::{linorder,zero} runtime \<Rightarrow> frame \<Rightarrow>
     error + ((cell \<times> 'n option) list \<times> (cell \<times> 'n) list \<times> (cell \<times> 'n) list \<times> (cell \<times> 'n) list)" where
  "process_data rt df0 =
     (case set_columns new_columns df0 of
        Inl e \<Rightarrow> Inl e
      | Inr df1 \<Rightarrow>
          (let df = filter_corporate (map (row_of (columns df1)) (rows df1));
               df = map (coerce_weight rt) df
           in Inr (top_holdings rt df, country_exposure rt df, rating_exposure rt df,
                   top_issuers rt df)))"

text \<open>
  The two intermediate values of \<^verbatim>\<open>df\<close> inside \<^verbatim>\<open>process_data\<close>: after the filter, and
  after the weights have been made numeric.
\<close>

definition filtered :: "frame \<Rightarrow> cell row list" where
  "filtered df0 = filter_corporate (map (row_of new_columns) (rows df0))"

definition coerced :: "'n runtime \<Rightarrow> frame \<Rightarrow> 'n option row list" where
  "coerced rt df0 = map (coerce_weight rt) (filtered df0)"

subsection \<open>Example data\<close>

text \<open>
  A float parser for plain decimal numerals without sign: \<^verbatim>\<open>"5"\<close> is 5, \<^verbatim>\<open>"bad"\<close> and the
  empty text have no value.
\<close>

definition digit_val :: "char \<Rightarrow> nat option" where
  "digit_val c = (let n = (of_char c :: nat) in if 48 \<le> n \<and> n \<le> 57 then Some (n - 48) else None)"

fun digits_val :: "nat \<Rightarrow> string \<Rightarrow> nat option" where
  "digits_val acc [] = Some acc"
| "digits_val acc (c # cs) =
     (case digit_val c of None \<Rightarrow> None | Some d \<Rightarrow> digits_val (10 * acc + d) cs)"

definition decimal :: "string \<Rightarrow> rat option" where
  "decimal s = (if s = [] then None else map_option of_nat (digits_val 0 s))"

text \<open>
  Two sorts that meet the promise of \<^verbatim>\<open>argsort\<close>: one leaves equal values in their order,
  the other reverses them.
\<close>

definition stable_argsort :: "'n::linorder list \<Rightarrow> nat list" where
  "stable_argsort xs = map snd (sort_key fst (zip xs [0..<length xs]))"

definition reversing_argsort :: "'n::linorder list \<Rightarrow> nat list" where
  "reversing_argsort xs = map snd (sort_key fst (rev (zip xs [0..<length xs])))"

text \<open>
  A runtime with exact arithmetic on rationals, and the same with the other sort.
\<close>

definition exact :: "rat runtime" where
  "exact = \<lparr>str_to_float = decimal, num_to_float = (\<lambda>x. x), argsort = stable_argsort,
            fsum = sum_list\<rparr>"

definition exact_reversing :: "rat runtime" where
  "exact_reversing = \<lparr>str_to_float = decimal, num_to_float = (\<lambda>x. x),
            argsort = reversing_argsort, fsum = sum_list\<rparr>"

text \<open>The three data rows of the specification's scenario, under an arbitrary header.\<close>

definition scenario :: frame where
  "scenario = \<lparr>columns = [''Name'', ''Weight (%)'', ''Rating'', ''Country'', ''Issuer'', ''Type''],
     rows = [[Txt ''A'', Txt ''5'', Txt ''AAA'', Txt ''US'', Txt ''X'', Txt ''Corporate Bonds''],
             [Txt ''B'', Txt ''bad'', Txt ''BBB'', Txt ''DE'', Txt ''Y'', Txt ''Corporate Bonds''],
             [Txt ''C'', Txt ''10'', Txt ''AAA'', Txt ''US'', Txt ''Z'', Txt ''Government Bonds'']]\<rparr>"

text \<open>The same sheet with a seventh column.\<close>

definition seven_columns :: frame where
  "seven_columns = \<lparr>columns = [''Name'', ''Weight (%)'', ''Rating'', ''Country'', ''Issuer'', ''Type'', ''ISIN''],
     rows = [[Txt ''A'', Txt ''5'', Txt ''AAA'', Txt ''US'', Txt ''X'', Txt ''Corporate Bonds'', Txt ''I1''],
             [Txt ''B'', Txt ''bad'', Txt ''BBB'', Txt ''DE'', Txt ''Y'', Txt ''Corporate Bonds'', Txt ''I2'']]\<rparr>"

text \<open>A sheet without corporate bonds.\<close>

definition no_corporate :: frame where
  "no_corporate = \<lparr>columns = [''a'', ''b'', ''c'', ''d'', ''e'', ''f''],
     rows = [[Txt ''C'', Num 10, Txt ''AAA'', Txt ''US'', Txt ''Z'', Txt ''Government Bonds''],
             [Txt ''D'', Num 3, Txt ''AA'', Txt ''FR'', Txt ''W'', Txt ''corporate bonds''],
             [Txt ''E'', Num 4, Txt ''A'', Txt ''FR'', Txt ''V'', Blank]]\<rparr>"

definition holding :: "string \<Rightarrow> 'w \<Rightarrow> cell \<Rightarrow> cell \<Rightarrow> cell \<Rightarrow> string \<Rightarrow> 'w row" where
  "holding s w r c i t =
     \<lparr>Security = Txt s, Weight = w, Rating = r, Country = c, Issuer = i, SecurityType = Txt t\<rparr>"

text \<open>Rows whose security type differs from the literal in case or in blanks.\<close>

definition mixed_types :: "cell row list" where
  "mixed_types =
     [holding ''A'' (Num 1) (Txt ''AAA'') (Txt ''US'') (Txt ''X'') ''Corporate Bonds'',
      holding ''B'' (Num 2) (Txt ''AAA'') (Txt ''US'') (Txt ''X'') ''corporate bonds'',
      holding ''C'' (Num 3) (Txt ''AAA'') (Txt ''US'') (Txt ''X'') ''Corporate Bonds '',
      holding ''D'' (Num 4) (Txt ''AAA'') (Txt ''US'') (Txt ''X'') ''Corporate Bonds'']"

text \<open>The corporate bonds of the scenario, with numeric weights.\<close>

definition scenario_corporate :: "rat option row list" where
  "scenario_corporate =
     [holding ''A'' (Some 5) (Txt ''AAA'') (Txt ''US'') (Txt ''X'') ''Corporate Bonds'',
      holding ''B'' None (Txt ''BBB'') (Txt ''DE'') (Txt ''Y'') ''Corporate Bonds'']"

text \<open>Four holdings, one without a weight, two with equal weights.\<close>

definition small_table :: "rat option row list" where
  "small_table =
     [holding ''A'' (Some 5) (Txt ''AAA'') (Txt ''US'') (Txt ''X'') ''Corporate Bonds'',
      holding ''B'' None (Txt ''BBB'') (Txt ''DE'') (Txt ''Y'') ''Corporate Bonds'',
      holding ''C'' (Some (7 / 2)) (Txt ''BBB'') (Txt ''US'') (Txt ''Y'') ''Corporate Bonds'',
      holding ''D'' (Some 5) (Txt ''AAA'') (Txt ''FR'') (Txt ''Z'') ''Corporate Bonds'']"

text \<open>A holding whose country cell is empty.\<close>

definition blank_country :: "rat option row list" where
  "blank_country =
     [holding ''A'' (Some 5) (Txt ''AAA'') Blank (Txt ''X'') ''Corporate Bonds'',
      holding ''B'' (Some 2) (Txt ''BBB'') (Txt ''DE'') (Txt ''Y'') ''Corporate Bonds'']"

text \<open>
  Fourteen holdings of twelve issuers; the sums of the issuers differ from one another,
  two holdings have the weight 3.
\<close>

definition twelve_issuers :: "rat option row list" where
  "twelve_issuers =
     map (\<lambda>(s, i, w). holding s w (Txt ''AAA'') (Txt ''US'') (Txt i) ''Corporate Bonds'')
       [(''S01'', ''I01'', Some 1), (''S02'', ''I02'', Some 12), (''S03'', ''I03'', Some 3),
        (''S04'', ''I04'', Some (9 / 2)), (''S05'', ''I05'', Some 5), (''S06'', ''I06'', Some (13 / 2)),
        (''S07'', ''I07'', Some 7), (''S08'', ''I08'', Some 8), (''S09'', ''I09'', Some 9),
        (''S10'', ''I10'', Some 10), (''S11'', ''I11'', Some 11), (''S12'', ''I12'', Some 2),
        (''S13'', ''I03'', Some 3), (''S14'', ''I05'', None)]"

section \<open>Properties\<close>

subsection \<open>Sorting and ranking\<close>

lemma select_mask_map: "select_mask xs (map P xs) = filter P xs"
  by (induction xs) (simp_all add: select_mask_def)

lemma filter_corporate_filter:
  "filter_corporate df = filter (\<lambda>r. SecurityType r = Txt ''Corporate Bonds'') df"
  by (simp add: filter_corporate_def select_mask_map)

lemma argsort_ok_set:
  assumes "argsort_ok qs"
  shows "set (qs xs) = {0..<length xs}"
proof -
  have "mset (qs xs) = mset [0..<length xs]"
    using assms by (simp add: argsort_ok_def)
  then have "set (qs xs) = set [0..<length xs]"
    by (rule mset_eq_setD)
  then show ?thesis by simp
qed

lemma mset_take_at:
  assumes "mset idx = mset [0..<length xs]"
  shows "mset (take_at xs idx) = mset xs"
proof -
  have "mset (take_at xs idx) = image_mset (\<lambda>i. xs ! i) (mset idx)"
    by (simp add: take_at_def)
  also have "\<dots> = mset (map (\<lambda>i. xs ! i) [0..<length xs])"
    by (simp add: assms)
  also have "\<dots> = mset xs"
    by (simp add: map_nth)
  finally show ?thesis .
qed

lemma mset_take_at_argsort:
  assumes "argsort_ok qs"
  shows "mset (take_at xs (qs (map f xs))) = mset xs"
proof -
  have "mset (qs (map f xs)) = mset [0..<length xs]"
    using assms by (simp add: argsort_ok_def)
  then show ?thesis by (rule mset_take_at)
qed

lemma sorted_take_at_argsort:
  assumes "argsort_ok qs"
  shows "sorted (map f (take_at xs (qs (map f xs))))"
proof -
  have "sorted (map (\<lambda>i. map f xs ! i) (qs (map f xs)))"
    using assms by (simp add: argsort_ok_def)
  moreover have "map (\<lambda>i. map f xs ! i) (qs (map f xs)) = map f (take_at xs (qs (map f xs)))"
    using argsort_ok_set [OF assms, of "map f xs"] by (simp add: take_at_def)
  ultimately show ?thesis by simp
qed

lemma mset_dropna_nan: "mset (dropna v xs) + mset (nan_index v xs) = mset xs"
  by (induction xs) (simp_all add: dropna_def nan_index_def)

lemma length_dropna_nan: "length (dropna v xs) + length (nan_index v xs) = length xs"
  using mset_dropna_nan [of v xs] by (metis size_mset size_union)

text \<open>The sorted part of \<open>sort_values\<close>.\<close>

lemma sort_values_split:
  assumes "argsort_ok qs"
  shows "\<exists>S. sort_values qs a v xs = S @ nan_index v xs \<and> mset S = mset (dropna v xs) \<and>
           (if a then sorted (map (num v) S) else sorted_wrt (\<lambda>x y. num v y \<le> num v x) S)"
proof (cases a)
  case True
  let ?S = "take_at (dropna v xs) (qs (map (num v) (dropna v xs)))"
  have "sort_values qs a v xs = ?S @ nan_index v xs"
    using True by (simp add: sort_values_def Let_def)
  moreover have "mset ?S = mset (dropna v xs)"
    by (rule mset_take_at_argsort [OF assms])
  moreover have "sorted (map (num v) ?S)"
    by (rule sorted_take_at_argsort [OF assms])
  ultimately show ?thesis using True by auto
next
  case False
  let ?R = "take_at (rev (dropna v xs)) (qs (map (num v) (rev (dropna v xs))))"
  have "sort_values qs a v xs = rev ?R @ nan_index v xs"
    using False by (simp add: sort_values_def Let_def)
  moreover have "mset (rev ?R) = mset (dropna v xs)"
    using mset_take_at_argsort [OF assms, of "rev (dropna v xs)" "num v"] by simp
  moreover have "sorted_wrt (\<lambda>x y. num v y \<le> num v x) (rev ?R)"
    using sorted_take_at_argsort [OF assms, of "num v" "rev (dropna v xs)"]
    by (simp add: sorted_map sorted_wrt_rev)
  ultimately show ?thesis using False by auto
qed

lemma mset_sort_values:
  assumes "argsort_ok qs"
  shows "mset (sort_values qs a v xs) = mset xs"
  using sort_values_split [OF assms, of a v xs] mset_dropna_nan [of v xs] by auto

lemma set_sort_values:
  assumes "argsort_ok qs"
  shows "set (sort_values qs a v xs) = set xs"
  using mset_sort_values [OF assms, of a v xs] by (metis set_mset_mset)

lemma length_sort_values:
  assumes "argsort_ok qs"
  shows "length (sort_values qs a v xs) = length xs"
  using mset_sort_values [OF assms, of a v xs] by (metis size_mset)

lemma dropna_total [simp]: "dropna (\<lambda>p. Some (g p)) xs = xs"
  by (simp add: dropna_def)

lemma nan_index_total [simp]: "nan_index (\<lambda>p. Some (g p)) xs = []"
  by (simp add: nan_index_def)

lemma num_total [simp]: "num (\<lambda>p. Some (g p)) = g"
  by (simp add: num_def fun_eq_iff)

text \<open>The stable ranking.\<close>

lemma mset_mergesort_desc [simp]: "mset (mergesort_desc f xs) = mset xs"
  by (simp add: mergesort_desc_def)

lemma length_mergesort_desc [simp]: "length (mergesort_desc f xs) = length xs"
  by (simp add: mergesort_desc_def)

lemma set_mergesort_desc [simp]: "set (mergesort_desc f xs) = set xs"
  by (simp add: mergesort_desc_def)

lemma sorted_mergesort_desc: "sorted_wrt (\<lambda>x y. f y \<le> f x) (mergesort_desc f xs)"
  using sorted_sort_key [of f "rev xs"] by (simp add: mergesort_desc_def sorted_map sorted_wrt_rev)

lemma sorted_wrt_all: "(\<And>x y. x \<in> set xs \<Longrightarrow> y \<in> set xs \<Longrightarrow> R x y) \<Longrightarrow> sorted_wrt R xs"
  by (induction xs) auto

lemma filter_sort_key_same:
  assumes "\<And>x. x \<in> set xs \<Longrightarrow> Q x \<Longrightarrow> f x = c"
  shows "filter Q (sort_key f xs) = filter Q xs"
proof -
  have "sorted (map f (filter Q xs))"
    unfolding sorted_map by (rule sorted_wrt_all) (use assms in auto)
  then have "sort_key f (filter Q xs) = filter Q xs"
    by (rule sort_key_id_if_sorted)
  then show ?thesis by (simp add: filter_sort)
qed

lemma filter_mergesort_desc_same:
  assumes "\<And>x. x \<in> set xs \<Longrightarrow> Q x \<Longrightarrow> f x = c"
  shows "filter Q (mergesort_desc f xs) = filter Q xs"
proof -
  have "filter Q (sort_key f (rev xs)) = filter Q (rev xs)"
    by (rule filter_sort_key_same [where c = c]) (use assms in auto)
  then have "rev (filter Q (sort_key f (rev xs))) = filter Q xs"
    by (simp add: rev_filter)
  then show ?thesis by (simp add: mergesort_desc_def rev_filter)
qed

text \<open>Without equal values there is one descending order.\<close>

lemma filter_same_key_distinct:
  assumes "distinct (map f zs)" and "k \<in> set zs"
  shows "filter (\<lambda>x. f k = f x) zs = [k]"
  using assms
proof (induction zs)
  case Nil
  then show ?case by simp
next
  case (Cons z zs)
  show ?case
  proof (cases "k = z")
    case True
    have "filter (\<lambda>x. f z = f x) zs = []"
      using Cons.prems(1) by (auto simp: filter_empty_conv)
    with True show ?thesis by simp
  next
    case False
    with Cons.prems have kz: "k \<in> set zs" by simp
    then have "f k \<in> f ` set zs" by (rule imageI)
    moreover have "f z \<notin> f ` set zs" using Cons.prems(1) by simp
    ultimately have "f k \<noteq> f z" by metis
    with Cons kz show ?thesis by simp
  qed
qed

lemma sorted_unique:
  assumes "mset ys = mset xs" and "sorted (map f ys)" and "distinct (map f xs)"
  shows "ys = sort_key f xs"
proof (rule properties_for_sort_key [symmetric])
  show "mset ys = mset xs" by fact
  show "sorted (map f ys)" by fact
  fix k assume k: "k \<in> set ys"
  have "mset (map f ys) = mset (map f xs)"
    using assms(1) by (metis mset_map)
  then have dy: "distinct (map f ys)"
    using assms(3) by (metis mset_eq_imp_distinct_iff)
  have kx: "k \<in> set xs"
    using k assms(1) by (metis mset_eq_setD)
  show "filter (\<lambda>x. f k = f x) ys = filter (\<lambda>x. f k = f x) xs"
    by (simp add: filter_same_key_distinct [OF dy k] filter_same_key_distinct [OF assms(3) kx])
qed

lemma sorted_desc_unique:
  assumes "mset ys = mset xs" and "sorted_wrt (\<lambda>x y. f y \<le> f x) ys" and "distinct (map f xs)"
  shows "ys = rev (sort_key f xs)"
proof -
  have "rev ys = sort_key f xs"
    using assms by (intro sorted_unique) (simp_all add: sorted_map sorted_wrt_rev)
  then show ?thesis by (metis rev_rev_ident)
qed

lemma sort_values_distinct:
  assumes "argsort_ok qs" and "distinct (map (num v) (dropna v xs))"
  shows "sort_values qs a v xs =
    (if a then sort_key (num v) (dropna v xs) else rev (sort_key (num v) (dropna v xs))) @ nan_index v xs"
proof -
  obtain S where S: "sort_values qs a v xs = S @ nan_index v xs" "mset S = mset (dropna v xs)"
      "if a then sorted (map (num v) S) else sorted_wrt (\<lambda>x y. num v y \<le> num v x) S"
    using sort_values_split [OF assms(1), of a v xs] by blast
  show ?thesis
  proof (cases a)
    case True
    with S have "S = sort_key (num v) (dropna v xs)"
      using assms(2) by (intro sorted_unique) simp_all
    with S True show ?thesis by simp
  next
    case False
    with S have "S = rev (sort_key (num v) (dropna v xs))"
      using assms(2) by (intro sorted_desc_unique) simp_all
    with S False show ?thesis by simp
  qed
qed

lemma take_desc_bound:
  assumes "sorted_wrt (\<lambda>x y. f y \<le> f x) M" and "mset M = mset D"
    and "x \<in> set (take n M)" and "y \<in># mset D - mset (take n M)"
  shows "f y \<le> f x"
proof -
  have "mset (take n M) + mset (drop n M) = mset D"
    using assms(2) by (metis append_take_drop_id mset_append)
  then have "mset D - mset (take n M) = mset (drop n M)"
    by (metis add_diff_cancel_left')
  with assms(4) have y: "y \<in> set (drop n M)" by simp
  have "sorted_wrt (\<lambda>x y. f y \<le> f x) (take n M @ drop n M)"
    using assms(1) by simp
  then have "\<forall>a \<in> set (take n M). \<forall>b \<in> set (drop n M). f b \<le> f a"
    by (simp only: sorted_wrt_append) blast
  with assms(3) y show ?thesis by blast
qed

lemma mset_take_subseteq: "mset (take n M) \<subseteq># mset M"
proof -
  have "mset M = mset (take n M) + mset (drop n M)"
    by (metis append_take_drop_id mset_append)
  then show ?thesis by simp
qed

text \<open>
  The result of \<open>nlargest\<close> is a ranked part, taken from the entries with a value, followed
  by the padding, taken from the entries without one.
\<close>

lemma nlargest_shape:
  assumes ok: "argsort_ok qs"
  shows "\<exists>P. nlargest qs n v xs = P @ take (n - length (dropna v xs)) (nan_index v xs) \<and>
     length P = min n (length (dropna v xs)) \<and>
     mset P \<subseteq># mset (dropna v xs) \<and>
     sorted_wrt (\<lambda>x y. num v y \<le> num v x) P \<and>
     (\<forall>x \<in> set P. \<forall>y \<in># mset (dropna v xs) - mset P. num v y \<le> num v x) \<and>
     (n < length xs \<longrightarrow> P = take n (mergesort_desc (num v) (dropna v xs))) \<and>
     (length xs \<le> n \<longrightarrow> mset P = mset (dropna v xs))"
proof -
  let ?D = "dropna v xs" and ?N = "nan_index v xs"
  have len: "length ?D + length ?N = length xs"
    by (rule length_dropna_nan)
  consider (zero) "n = 0" | (slow) "0 < n" "length xs \<le> n" | (fast) "0 < n" "n < length xs"
    by linarith
  then show ?thesis
  proof cases
    case zero
    then have "nlargest qs n v xs = [] @ take (n - length ?D) ?N"
      by (simp add: nlargest_def)
    moreover have "length xs \<le> n \<longrightarrow> mset [] = mset ?D"
      using zero by (simp add: dropna_def)
    ultimately show ?thesis
      using zero by (intro exI [of _ "[]"]) simp
  next
    case slow
    obtain S where S: "sort_values qs False v xs = S @ ?N" "mset S = mset ?D"
        "sorted_wrt (\<lambda>x y. num v y \<le> num v x) S"
      using sort_values_split [OF ok, of False v xs] by auto
    have lS: "length S = length ?D"
      using S(2) by (metis size_mset)
    have "nlargest qs n v xs = S @ ?N"
      using slow S(1) lS len by (simp add: nlargest_def)
    moreover have "take (n - length ?D) ?N = ?N"
      using slow len by simp
    ultimately have 1: "nlargest qs n v xs = S @ take (n - length ?D) ?N"
      by simp
    have 2: "length S = min n (length ?D)"
      using lS slow len by simp
    have 3: "mset S \<subseteq># mset ?D"
      using S(2) by simp
    have 4: "\<forall>x \<in> set S. \<forall>y \<in># mset ?D - mset S. num v y \<le> num v x"
      using S(2) by simp
    have 5: "n < length xs \<longrightarrow> S = take n (mergesort_desc (num v) ?D)"
      using slow by simp
    from 1 2 3 S(3) 4 5 S(2) show ?thesis
      by (intro exI [of _ S]) simp
  next
    case fast
    let ?M = "mergesort_desc (num v) ?D"
    have "take n (take (min n (length ?D)) ?M @ ?N) = take n ?M @ take (n - length ?D) ?N"
      by (cases "n \<le> length ?D") (simp_all add: min_def)
    then have 1: "nlargest qs n v xs = take n ?M @ take (n - length ?D) ?N"
      using fast by (simp add: nlargest_def Let_def)
    have 2: "length (take n ?M) = min n (length ?D)"
      by (simp add: min.commute)
    have 3: "mset (take n ?M) \<subseteq># mset ?D"
      using mset_take_subseteq [of n ?M] by simp
    have 4: "sorted_wrt (\<lambda>x y. num v y \<le> num v x) (take n ?M)"
      using sorted_mergesort_desc [of "num v" ?D] by (rule sorted_wrt_take)
    have 5: "\<forall>x \<in> set (take n ?M). \<forall>y \<in># mset ?D - mset (take n ?M). num v y \<le> num v x"
      by (intro ballI) (rule take_desc_bound [OF sorted_mergesort_desc mset_mergesort_desc])
    have 6: "length xs \<le> n \<longrightarrow> mset (take n ?M) = mset ?D"
      using fast by simp
    from 1 2 3 4 5 6 show ?thesis
      by (intro exI [of _ "take n ?M"]) simp
  qed
qed

lemma length_nlargest:
  assumes "argsort_ok qs"
  shows "length (nlargest qs n v xs) = min n (length xs)"
proof -
  obtain P where P: "nlargest qs n v xs = P @ take (n - length (dropna v xs)) (nan_index v xs)"
      "length P = min n (length (dropna v xs))"
    using nlargest_shape [OF assms, of n v xs] by blast
  have "length (dropna v xs) + length (nan_index v xs) = length xs"
    by (rule length_dropna_nan)
  moreover have "length (nlargest qs n v xs)
      = min n (length (dropna v xs)) + min (length (nan_index v xs)) (n - length (dropna v xs))"
    using P by simp
  ultimately show ?thesis by linarith
qed

lemma ranked_stable:
  "prefix (filter (\<lambda>x. v x = Some w) (take n (mergesort_desc (num v) (dropna v xs))))
          (filter (\<lambda>x. v x = Some w) xs)"
proof -
  let ?Q = "\<lambda>x. v x = Some w"
  have "filter ?Q (mergesort_desc (num v) (dropna v xs)) = filter ?Q (dropna v xs)"
    by (rule filter_mergesort_desc_same [where c = w]) (simp add: num_def)
  also have "\<dots> = filter ?Q xs"
    by (auto simp: dropna_def intro: filter_cong)
  finally show ?thesis
    using filter_mono_prefix [OF take_is_prefix, of ?Q n "mergesort_desc (num v) (dropna v xs)"]
    by simp
qed

lemma in_dropna: "x \<in># mset (dropna v xs) \<Longrightarrow> v x \<noteq> None"
  by (simp add: dropna_def)

lemma in_nan_index: "x \<in> set (take m (nan_index v xs)) \<Longrightarrow> v x = None"
  by (auto dest!: in_set_takeD simp: nan_index_def)

lemma nlargest_small:
  assumes "argsort_ok qs" and "length xs \<le> n" and "distinct (map (num v) (dropna v xs))"
  shows "nlargest qs n v xs = rev (sort_key (num v) (dropna v xs)) @ nan_index v xs"
proof (cases "n = 0")
  case True
  with assms(2) show ?thesis by (simp add: nlargest_def dropna_def nan_index_def)
next
  case False
  have "length (rev (sort_key (num v) (dropna v xs)) @ nan_index v xs) = length xs"
    using length_dropna_nan [of v xs] by simp
  with False assms(2) show ?thesis
    by (simp add: nlargest_def sort_values_distinct [OF assms(1,3)])
qed

lemma sort_values_Nil:
  assumes "argsort_ok qs"
  shows "sort_values qs a v [] = []"
  using length_sort_values [OF assms, of a v "[]"] by simp

lemma nlargest_Nil:
  assumes "argsort_ok qs"
  shows "nlargest qs n v [] = []"
  using length_nlargest [OF assms, of n v "[]"] by simp

text \<open>The two example sorts keep the promise of \<open>argsort\<close>.\<close>

lemma argsort_of_zip:
  fixes xs :: "'n::linorder list"
  assumes "mset zs = mset (zip xs [0..<length xs])"
  shows "mset (map snd (sort_key fst zs)) = mset [0..<length xs] \<and>
         sorted (map (\<lambda>i. xs ! i) (map snd (sort_key fst zs)))"
proof -
  have "mset (map snd (sort_key fst zs)) = image_mset snd (mset (sort_key fst zs))"
    by (rule mset_map)
  also have "\<dots> = image_mset snd (mset (zip xs [0..<length xs]))"
    by (simp only: mset_sort assms)
  also have "\<dots> = mset (map snd (zip xs [0..<length xs]))"
    by (rule mset_map [symmetric])
  also have "map snd (zip xs [0..<length xs]) = [0..<length xs]"
    by (rule map_snd_zip) simp
  finally have 1: "mset (map snd (sort_key fst zs)) = mset [0..<length xs]" .
  have "set zs = set (zip xs [0..<length xs])"
    using assms by (rule mset_eq_setD)
  then have "\<forall>p \<in> set (sort_key fst zs). xs ! snd p = fst p"
    by (auto simp: set_zip)
  then have "map (\<lambda>i. xs ! i) (map snd (sort_key fst zs)) = map fst (sort_key fst zs)"
    by simp
  then have 2: "sorted (map (\<lambda>i. xs ! i) (map snd (sort_key fst zs)))"
    by (simp only: sorted_sort_key)
  from 1 2 show ?thesis by (rule conjI)
qed

lemma stable_argsort_ok: "argsort_ok stable_argsort"
  unfolding argsort_ok_def stable_argsort_def
  by (intro allI argsort_of_zip) simp

lemma reversing_argsort_ok: "argsort_ok reversing_argsort"
  unfolding argsort_ok_def reversing_argsort_def
  by (intro allI argsort_of_zip) simp

lemma exact_ok: "argsort_ok (argsort exact)"
  by (simp add: exact_def stable_argsort_ok)

lemma exact_reversing_ok: "argsort_ok (argsort exact_reversing)"
  by (simp add: exact_reversing_def reversing_argsort_ok)

subsection \<open>Groups\<close>

lemma groupby_keys:
  "map fst (groupby col df) = sort_key cell_key (remdups (filter (\<lambda>k. k \<noteq> Blank) (map col df)))"
  by (simp add: groupby_def comp_def)

lemma set_groupby_keys: "fst ` set (groupby col df) = col ` set df - {Blank}"
proof -
  have "set (map fst (groupby col df)) = col ` set df - {Blank}"
    unfolding groupby_keys by auto
  then show ?thesis by simp
qed

lemma distinct_groupby_keys: "distinct (map fst (groupby col df))"
  unfolding groupby_keys by simp

lemma groupby_mem:
  "(k, g) \<in> set (groupby col df) \<longleftrightarrow> k \<in> col ` set df - {Blank} \<and> g = filter (\<lambda>r. col r = k) df"
  by (auto simp: groupby_def)

lemma groupby_sum_keys: "map fst (groupby_sum fs col df) = map fst (groupby col df)"
  by (simp add: groupby_sum_def comp_def case_prod_unfold)

lemma distinct_groupby_sum_keys: "distinct (map fst (groupby_sum fs col df))"
  by (simp add: groupby_sum_keys distinct_groupby_keys)

lemma length_groupby_sum: "length (groupby_sum fs col df) = card (col ` set df - {Blank})"
proof -
  have "length (groupby_sum fs col df) = length (map fst (groupby_sum fs col df))"
    by simp
  also have "\<dots> = card (set (map fst (groupby_sum fs col df)))"
    by (rule distinct_card [symmetric]) (rule distinct_groupby_sum_keys)
  also have "set (map fst (groupby_sum fs col df)) = col ` set df - {Blank}"
    by (simp only: groupby_sum_keys set_map set_groupby_keys)
  finally show ?thesis .
qed

lemma groupby_sum_mem:
  "(k, s) \<in> set (groupby_sum fs col df) \<longleftrightarrow>
     k \<in> col ` set df - {Blank} \<and> s = group_total fs (List.map_filter Weight (filter (\<lambda>r. col r = k) df))"
  by (auto simp: groupby_sum_def groupby_def)

lemma groupby_sum_key_set: "fst ` set (groupby_sum fs col df) = col ` set df - {Blank}"
  using groupby_sum_keys [of fs col df] set_groupby_keys [of col df] by (metis set_map)

lemma groupby_sum_Nil [simp]: "groupby_sum fs col [] = []"
  by (simp add: groupby_sum_def groupby_def)

lemma groupby_sum_alt:
  "groupby_sum fs col df
     = map (\<lambda>(k, ws). (k, group_total fs ws)) (map (\<lambda>(k, g). (k, List.map_filter Weight g)) (groupby col df))"
  by (simp add: groupby_sum_def comp_def case_prod_unfold)

lemma map_filter_all_None:
  assumes "\<forall>x \<in> set xs. w x = None"
  shows "List.map_filter w xs = []"
  using assms by (induction xs) (simp_all add: List.map_filter_simps)


lemma groupby_sum_zero:
  assumes "k \<in> col ` set df - {Blank}" and "\<forall>r \<in> set df. col r = k \<longrightarrow> Weight r = None"
  shows "(k, 0) \<in> set (groupby_sum fs col df)"
proof -
  have "List.map_filter Weight (filter (\<lambda>r. col r = k) df) = []"
    using assms(2) by (intro map_filter_all_None) simp
  with assms(1) show ?thesis by (simp add: groupby_sum_mem group_total_def)
qed

text \<open>The groups of distinct keys hold, together, the rows with one of the keys.\<close>

lemma mset_groups:
  assumes "distinct ks"
  shows "mset (concat (map (\<lambda>k. filter (\<lambda>r. c r = k) xs) ks)) = mset (filter (\<lambda>r. c r \<in> set ks) xs)"
  using assms
proof (induction ks)
  case Nil
  then show ?case by simp
next
  case (Cons k ks)
  have "filter_mset (\<lambda>r. c r = k \<or> c r \<in> set ks) (mset xs)
      = filter_mset (\<lambda>r. c r = k) (mset xs) + filter_mset (\<lambda>r. c r \<in> set ks) (mset xs)"
    using Cons.prems by (intro multiset_eqI) auto
  with Cons show ?case by simp
qed

lemma mset_groupby:
  "mset (concat (map snd (groupby col df))) = mset (filter (\<lambda>r. col r \<noteq> Blank) df)"
proof -
  let ?ks = "sort_key cell_key (remdups (filter (\<lambda>k. k \<noteq> Blank) (map col df)))"
  have "map snd (groupby col df) = map (\<lambda>k. filter (\<lambda>r. col r = k) df) ?ks"
    by (simp add: groupby_def comp_def)
  then have "mset (concat (map snd (groupby col df))) = mset (filter (\<lambda>r. col r \<in> set ?ks) df)"
    by (simp only: mset_groups distinct_sort distinct_remdups)
  also have "filter (\<lambda>r. col r \<in> set ?ks) df = filter (\<lambda>r. col r \<noteq> Blank) df"
    by (rule filter_cong) auto
  finally show ?thesis .
qed

lemma mset_map_filter: "mset (List.map_filter w xs) = image_mset (\<lambda>x. the (w x)) (filter_mset (\<lambda>x. w x \<noteq> None) (mset xs))"
  by (induction xs) (auto simp: List.map_filter_simps split: option.splits)

lemma mset_concat_map_filter:
  "mset (concat (map (List.map_filter w) xss)) = mset (List.map_filter w (concat xss))"
  by (induction xss) (simp_all add: List.map_filter_def)

lemma mset_weights_groupby:
  "mset (concat (map (\<lambda>(k, g). List.map_filter Weight g) (groupby col df)))
     = mset (List.map_filter Weight (filter (\<lambda>r. col r \<noteq> Blank) df))"
proof -
  have "map (\<lambda>(k, g). List.map_filter Weight g) (groupby col df)
      = map (List.map_filter Weight) (map snd (groupby col df))"
    by (simp add: comp_def case_prod_unfold)
  then have "mset (concat (map (\<lambda>(k, g). List.map_filter Weight g) (groupby col df)))
      = mset (List.map_filter Weight (concat (map snd (groupby col df))))"
    by (simp only: mset_concat_map_filter)
  also have "\<dots> = mset (List.map_filter Weight (filter (\<lambda>r. col r \<noteq> Blank) df))"
    by (simp only: mset_map_filter mset_groupby)
  finally show ?thesis .
qed

lemma sum_list_mset_eq:
  fixes xs :: "'n::comm_monoid_add list"
  assumes "mset xs = mset ys"
  shows "sum_list xs = sum_list ys"
proof -
  have "sum_mset (mset xs) = sum_mset (mset ys)"
    using assms by simp
  then show ?thesis
    by (simp only: sum_mset_sum_list)
qed

lemma sum_list_concat_map:
  fixes xss :: "'n::comm_monoid_add list list"
  shows "sum_list (concat xss) = sum_list (map sum_list xss)"
  by (induction xss) simp_all

lemma mset_exposure:
  assumes "argsort_ok (argsort rt)"
  shows "mset (sort_values (argsort rt) a v (groupby_sum (fsum rt) col df))
     = mset (map (\<lambda>(k, g). (k, group_total (fsum rt) (List.map_filter Weight g))) (groupby col df))"
  by (simp add: mset_sort_values [OF assms] groupby_sum_def)

lemma exact_exposure_sum:
  fixes rt :: "'n::{linorder,comm_monoid_add} runtime"
  assumes ok: "argsort_ok (argsort rt)"
    and ex: "\<forall>(k, g) \<in> set (groupby col df).
       fsum rt (List.map_filter Weight g) = sum_list (List.map_filter Weight g)"
  shows "sum_list (map snd (sort_values (argsort rt) a v (groupby_sum (fsum rt) col df)))
     = sum_list (List.map_filter Weight (filter (\<lambda>r. col r \<noteq> Blank) df))"
proof -
  have "mset (map snd (sort_values (argsort rt) a v (groupby_sum (fsum rt) col df)))
      = mset (map snd (groupby_sum (fsum rt) col df))"
    using mset_sort_values [OF ok, of a v "groupby_sum (fsum rt) col df"] by (metis mset_map)
  then have "sum_list (map snd (sort_values (argsort rt) a v (groupby_sum (fsum rt) col df)))
      = sum_list (map snd (groupby_sum (fsum rt) col df))"
    by (rule sum_list_mset_eq)
  also have "map snd (groupby_sum (fsum rt) col df)
      = map (\<lambda>(k, g). sum_list (List.map_filter Weight g)) (groupby col df)"
    using ex by (auto simp: groupby_sum_def group_total_def)
  also have "sum_list (map (\<lambda>(k, g). sum_list (List.map_filter Weight g)) (groupby col df))
      = sum_list (concat (map (\<lambda>(k, g). List.map_filter Weight g) (groupby col df)))"
    by (simp add: sum_list_concat_map comp_def case_prod_unfold)
  also have "\<dots> = sum_list (List.map_filter Weight (filter (\<lambda>r. col r \<noteq> Blank) df))"
    by (rule sum_list_mset_eq) (rule mset_weights_groupby)
  finally show ?thesis .
qed


lemma distinct_map_submset:
  assumes "mset xs \<subseteq># mset ys" and "distinct (map f ys)"
  shows "distinct (map f xs)"
proof -
  obtain C where "mset ys = mset xs + C"
    using assms(1) by (auto simp: mset_subset_eq_exists_conv)
  moreover obtain zs where "mset zs = C"
    using ex_mset by blast
  ultimately have "mset ys = mset (xs @ zs)" by simp
  then have "mset (map f ys) = mset (map f (xs @ zs))"
    by (metis mset_map)
  then have "distinct (map f (xs @ zs))"
    using assms(2) by (metis mset_eq_imp_distinct_iff)
  then show ?thesis by simp
qed

lemma left_out:
  assumes "x \<in> set ys" and "x \<notin> set xs"
  shows "x \<in># mset ys - mset xs"
proof -
  have "count (mset xs) x = 0"
    using assms(2) by (simp add: count_eq_zero_iff)
  moreover have "0 < count (mset ys) x"
    using assms(1) by simp
  ultimately have "count (mset xs) x < count (mset ys) x"
    by linarith
  then show ?thesis by (simp only: in_diff_count)
qed

lemma top_issuers_shape:
  assumes "argsort_ok (argsort rt)"
  shows "mset (top_issuers rt df) \<subseteq># mset (groupby_sum (fsum rt) Issuer df) \<and>
    sorted (map snd (top_issuers rt df)) \<and>
    length (top_issuers rt df) = min 10 (length (groupby_sum (fsum rt) Issuer df)) \<and>
    (\<forall>x \<in> set (top_issuers rt df).
       \<forall>y \<in># mset (groupby_sum (fsum rt) Issuer df) - mset (top_issuers rt df). snd y \<le> snd x) \<and>
    mset (top_issuers rt df) = mset (take 10 (mergesort_desc snd (groupby_sum (fsum rt) Issuer df))) \<and>
    (length (groupby_sum (fsum rt) Issuer df) \<le> 10 \<longrightarrow>
       mset (top_issuers rt df) = mset (groupby_sum (fsum rt) Issuer df))"
proof -
  let ?G = "groupby_sum (fsum rt) Issuer df"
  let ?v = "\<lambda>p :: cell \<times> 'a. Some (snd p)"
  obtain P where P: "nlargest (argsort rt) 10 ?v ?G = P"
      "length P = min 10 (length ?G)"
      "mset P \<subseteq># mset ?G"
      "\<forall>x \<in> set P. \<forall>y \<in># mset ?G - mset P. snd y \<le> snd x"
      "10 < length ?G \<longrightarrow> P = take 10 (mergesort_desc snd ?G)"
      "length ?G \<le> 10 \<longrightarrow> mset P = mset ?G"
    using nlargest_shape [OF assms, of 10 ?v ?G] by auto
  obtain S where S: "sort_values (argsort rt) True ?v P = S" "mset S = mset P" "sorted (map snd S)"
    using sort_values_split [OF assms, of True ?v P] by auto
  have top: "top_issuers rt df = S"
    by (simp only: top_issuers_def P(1) S(1))
  have setS: "set S = set P"
    using S(2) by (rule mset_eq_setD)
  have 1: "mset S \<subseteq># mset ?G"
    using S(2) P(3) by simp
  have 3: "length S = min 10 (length ?G)"
    using S(2) P(2) by (metis size_mset)
  have 4: "\<forall>x \<in> set S. \<forall>y \<in># mset ?G - mset S. snd y \<le> snd x"
    using P(4) S(2) setS by simp
  have 5: "mset S = mset (take 10 (mergesort_desc snd ?G))"
  proof (cases "10 < length ?G")
    case True
    with P(5) S(2) show ?thesis by simp
  next
    case False
    with P(6) S(2) show ?thesis by simp
  qed
  have 6: "length ?G \<le> 10 \<longrightarrow> mset S = mset ?G"
    using P(6) S(2) by simp
  from 1 S(3) 3 4 5 6 show ?thesis
    unfolding top by (intro conjI)
qed

lemma top_issuers_entries:
  assumes "argsort_ok (argsort rt)" and "(k, s) \<in> set (top_issuers rt df)"
  shows "k \<in> Issuer ` set df - {Blank} \<and>
         s = group_total (fsum rt) (List.map_filter Weight (filter (\<lambda>r. Issuer r = k) df))"
proof -
  have "mset (top_issuers rt df) \<subseteq># mset (groupby_sum (fsum rt) Issuer df)"
    using top_issuers_shape [OF assms(1), of df] by blast
  with assms(2) have "(k, s) \<in># mset (groupby_sum (fsum rt) Issuer df)"
    by (metis mset_subset_eqD set_mset_mset)
  then show ?thesis by (simp add: groupby_sum_mem)
qed

lemma top_issuers_all:
  assumes "argsort_ok (argsort rt)" and "card (Issuer ` set df - {Blank}) \<le> 10"
  shows "set (top_issuers rt df) = set (groupby_sum (fsum rt) Issuer df)"
proof -
  have "length (groupby_sum (fsum rt) Issuer df) \<le> 10"
    using assms(2) by (simp add: length_groupby_sum)
  then have "mset (top_issuers rt df) = mset (groupby_sum (fsum rt) Issuer df)"
    using top_issuers_shape [OF assms(1), of df] by blast
  then show ?thesis by (rule mset_eq_setD)
qed

lemma top_issuers_keys_all:
  assumes "argsort_ok (argsort rt)" and "card (Issuer ` set df - {Blank}) \<le> 10"
  shows "fst ` set (top_issuers rt df) = Issuer ` set df - {Blank}"
  by (simp only: top_issuers_all [OF assms] groupby_sum_key_set)

subsection \<open>Reading the frame\<close>

lemma row_of_new_columns:
  "row_of new_columns cs =
     \<lparr>Security = cs ! 0, Weight = cs ! 1, Rating = cs ! 2, Country = cs ! 3, Issuer = cs ! 4,
      SecurityType = cs ! 5\<rparr>"
  by (simp add: row_of_def get_loc_def new_columns_def eval_nat_numeral)

lemma coerced_positions:
  "coerced rt df0 =
     map (\<lambda>cs. \<lparr>Security = cs ! 0, Weight = to_numeric rt (cs ! 1), Rating = cs ! 2,
                 Country = cs ! 3, Issuer = cs ! 4, SecurityType = cs ! 5\<rparr>)
       (filter (\<lambda>cs. cs ! 5 = Txt ''Corporate Bonds'') (rows df0))"
  by (simp add: coerced_def filtered_def filter_corporate_filter row_of_new_columns filter_map
      comp_def coerce_weight_def)

lemma process_data_views:
  "length (columns df0) = 6 \<Longrightarrow>
   process_data rt df0 = Inr (top_holdings rt (coerced rt df0), country_exposure rt (coerced rt df0),
     rating_exposure rt (coerced rt df0), top_issuers rt (coerced rt df0))"
  by (simp add: process_data_def set_columns_def new_columns_def coerced_def filtered_def Let_def)

lemma process_data_refused:
  "length (columns df0) \<noteq> 6 \<Longrightarrow> process_data rt df0 = Inl (ValueError (length (columns df0)) 6)"
  by (auto simp: process_data_def set_columns_def new_columns_def)

lemma decimal_5: "decimal ''5'' = Some 5"
  by code_simp

lemma decimal_bad: "decimal ''bad'' = None"
  by code_simp

lemma scenario_coerced:
  fixes rt :: "rat runtime"
  assumes "str_to_float rt ''5'' = Some 5" and "str_to_float rt ''bad'' = None"
  shows "coerced rt scenario = scenario_corporate"
  using assms
  by (simp add: coerced_positions scenario_def scenario_corporate_def holding_def)

subsection \<open>Filter\<close>

text \<open>
  C2. The filter keeps, in their order, exactly the rows whose security type is the text
  \<^verbatim>\<open>Corporate Bonds\<close>: its result is a subsequence of the table and holds each such row as
  often as the table does, and no other row. The comparison is equality of texts, so a
  type that differs in case or in blanks is not kept.
\<close>

theorem filter_corporate_exact:
  "subseq (filter_corporate df) df \<and>
   mset (filter_corporate df) = filter_mset (\<lambda>r. SecurityType r = Txt ''Corporate Bonds'') (mset df)"
  by (simp add: filter_corporate_filter)

theorem filter_corporate_exact_witness:
  "subseq (filter_corporate mixed_types) mixed_types \<and>
   filter_corporate mixed_types =
     [holding ''A'' (Num 1) (Txt ''AAA'') (Txt ''US'') (Txt ''X'') ''Corporate Bonds'',
      holding ''D'' (Num 4) (Txt ''AAA'') (Txt ''US'') (Txt ''X'') ''Corporate Bonds'']"
proof -
  have "filter_corporate mixed_types =
     [holding ''A'' (Num 1) (Txt ''AAA'') (Txt ''US'') (Txt ''X'') ''Corporate Bonds'',
      holding ''D'' (Num 4) (Txt ''AAA'') (Txt ''US'') (Txt ''X'') ''Corporate Bonds'']"
    by (simp add: filter_corporate_filter mixed_types_def holding_def)
  with filter_corporate_exact [of mixed_types] show ?thesis by simp
qed

subsection \<open>Shape of the input\<close>

text \<open>
  C6, as the code has it. Assigning the six column names fails with a \<^verbatim>\<open>ValueError\<close>
  whenever the frame does not have exactly six columns, fewer or more. With exactly six
  columns \<^verbatim>\<open>process_data\<close> returns its four views, and the names go by position: the
  views are those of the table whose rows are the rows of the frame with the text
  \<^verbatim>\<open>Corporate Bonds\<close> in the sixth cell, read as Security from the first cell, Weight from
  the second (made numeric), Rating from the third, Country from the fourth, Issuer from
  the fifth and SecurityType from the sixth. The header texts of the sheet play no part in
  the result.
\<close>

theorem process_data_six_columns:
  "(length (columns df) \<noteq> 6 \<longrightarrow> process_data rt df = Inl (ValueError (length (columns df)) 6)) \<and>
   (length (columns df) = 6 \<longrightarrow>
      (let T = map (\<lambda>cs. \<lparr>Security = cs ! 0, Weight = to_numeric rt (cs ! 1), Rating = cs ! 2,
                            Country = cs ! 3, Issuer = cs ! 4, SecurityType = cs ! 5\<rparr>)
                 (filter (\<lambda>cs. cs ! 5 = Txt ''Corporate Bonds'') (rows df))
       in process_data rt df
            = Inr (top_holdings rt T, country_exposure rt T, rating_exposure rt T, top_issuers rt T))) \<and>
   (length h = length (columns df) \<longrightarrow> process_data rt (df\<lparr>columns := h\<rparr>) = process_data rt df)"
proof (intro conjI impI)
  assume "length (columns df) \<noteq> 6"
  then show "process_data rt df = Inl (ValueError (length (columns df)) 6)"
    by (rule process_data_refused)
next
  assume "length (columns df) = 6"
  then show "let T = map (\<lambda>cs. \<lparr>Security = cs ! 0, Weight = to_numeric rt (cs ! 1), Rating = cs ! 2,
                            Country = cs ! 3, Issuer = cs ! 4, SecurityType = cs ! 5\<rparr>)
                 (filter (\<lambda>cs. cs ! 5 = Txt ''Corporate Bonds'') (rows df))
       in process_data rt df
            = Inr (top_holdings rt T, country_exposure rt T, rating_exposure rt T, top_issuers rt T)"
    by (simp only: Let_def process_data_views coerced_positions)
next
  assume "length h = length (columns df)"
  then show "process_data rt (df\<lparr>columns := h\<rparr>) = process_data rt df"
    by (simp add: process_data_def set_columns_def)
qed

theorem process_data_six_columns_witness:
  "length (columns seven_columns) \<noteq> 6 \<and> process_data exact seven_columns = Inl (ValueError 7 6) \<and>
   length (columns scenario) = 6 \<and>
   process_data exact scenario = Inr ([(Txt ''A'', Some 5), (Txt ''B'', None)],
           [(Txt ''US'', 5), (Txt ''DE'', 0)], [(Txt ''AAA'', 5), (Txt ''BBB'', 0)],
           [(Txt ''Y'', 0), (Txt ''X'', 5)]) \<and>
   length [''SecurityType'', ''Issuer'', ''Country'', ''Rating'', ''Weight'', ''Security'']
     = length (columns scenario) \<and>
   process_data exact
       (scenario\<lparr>columns := [''SecurityType'', ''Issuer'', ''Country'', ''Rating'', ''Weight'', ''Security'']\<rparr>)
     = process_data exact scenario"
proof -
  have a: "length (columns seven_columns) \<noteq> 6" by (simp add: seven_columns_def)
  have b: "length (columns scenario) = 6" by (simp add: scenario_def)
  have c: "length [''SecurityType'', ''Issuer'', ''Country'', ''Rating'', ''Weight'', ''Security'']
     = length (columns scenario)" by (simp add: scenario_def)
  have d: "process_data exact scenario = Inr ([(Txt ''A'', Some 5), (Txt ''B'', None)],
           [(Txt ''US'', 5), (Txt ''DE'', 0)], [(Txt ''AAA'', 5), (Txt ''BBB'', 0)],
           [(Txt ''Y'', 0), (Txt ''X'', 5)])"
    by code_simp
  from process_data_six_columns [of seven_columns exact "[]", THEN conjunct1, THEN mp, OF a]
  have e: "process_data exact seven_columns = Inl (ValueError 7 6)"
    by (simp add: seven_columns_def)
  have f: "process_data exact
       (scenario\<lparr>columns := [''SecurityType'', ''Issuer'', ''Country'', ''Rating'', ''Weight'', ''Security'']\<rparr>)
     = process_data exact scenario"
    by (rule process_data_six_columns [of scenario exact
      "[''SecurityType'', ''Issuer'', ''Country'', ''Rating'', ''Weight'', ''Security'']",
      THEN conjunct2, THEN conjunct2, THEN mp, OF c])
  from a e b d c f show ?thesis by (intro conjI)
qed

text \<open>
  The claim as the specification words it fails on a sheet with seven columns: the
  assignment of six names is refused.
\<close>

theorem seven_columns_refused:
  "process_data exact seven_columns = Inl (ValueError 7 6)"
  by code_simp

subsection \<open>No corporate bonds\<close>

text \<open>
  C8. When the frame has six columns and the filter leaves no row (no row has the security
  type \<^verbatim>\<open>Corporate Bonds\<close>), \<^verbatim>\<open>process_data\<close> returns four empty views and raises nothing,
  whatever sort keeps the promise of \<^verbatim>\<open>argsort\<close>.
\<close>

theorem process_data_no_corporate:
  assumes "length (columns df) = 6"
    and "filtered df = []"
    and "argsort_ok (argsort rt)"
  shows "process_data rt df = Inr ([], [], [], [])"
  using assms(1,2)
  by (simp add: process_data_views coerced_def top_holdings_def country_exposure_def
      rating_exposure_def top_issuers_def sort_values_Nil [OF assms(3)] nlargest_Nil [OF assms(3)])

theorem process_data_no_corporate_witness:
  "length (columns no_corporate) = 6 \<and> filtered no_corporate = [] \<and> argsort_ok (argsort exact) \<and>
   process_data exact no_corporate = Inr ([], [], [], [])"
proof -
  have 1: "length (columns no_corporate) = 6"
    by (simp add: no_corporate_def)
  have 2: "filtered no_corporate = []"
    by (simp add: no_corporate_def filtered_def filter_corporate_filter row_of_new_columns)
  from 1 2 exact_ok process_data_no_corporate [OF 1 2 exact_ok] show ?thesis by (intro conjI)
qed

subsection \<open>Exposure keys\<close>

text \<open>
  C10, as the code has it. The keys of the country exposure are the country cells of the
  filtered table other than the empty cell, each once; likewise the keys of the rating
  exposure and the rating cells. A key all of whose rows lack a weight is present with
  the sum 0.
\<close>

theorem exposure_keys:
  assumes "argsort_ok (argsort rt)"
  shows "fst ` set (country_exposure rt df) = Country ` set df - {Blank} \<and>
   distinct (map fst (country_exposure rt df)) \<and>
   fst ` set (rating_exposure rt df) = Rating ` set df - {Blank} \<and>
   distinct (map fst (rating_exposure rt df)) \<and>
   (\<forall>k \<in> Country ` set df - {Blank}.
      (\<forall>r \<in> set df. Country r = k \<longrightarrow> Weight r = None) \<longrightarrow> (k, 0) \<in> set (country_exposure rt df)) \<and>
   (\<forall>k \<in> Rating ` set df - {Blank}.
      (\<forall>r \<in> set df. Rating r = k \<longrightarrow> Weight r = None) \<longrightarrow> (k, 0) \<in> set (rating_exposure rt df))"
proof -
  have d: "distinct (map fst (sort_values (argsort rt) a v (groupby_sum (fsum rt) col df)))"
    for a v and col :: "'a option row \<Rightarrow> cell"
  proof -
    have "mset (map fst (sort_values (argsort rt) a v (groupby_sum (fsum rt) col df)))
        = mset (map fst (groupby_sum (fsum rt) col df))"
      using mset_sort_values [OF assms, of a v "groupby_sum (fsum rt) col df"] by (metis mset_map)
    then show ?thesis
      using distinct_groupby_sum_keys [of "fsum rt" col df] by (metis mset_eq_imp_distinct_iff)
  qed
  have k: "fst ` set (groupby_sum (fsum rt) col df) = col ` set df - {Blank}"
    for col :: "'a option row \<Rightarrow> cell"
    using groupby_sum_keys [of "fsum rt" col df] set_groupby_keys [of col df]
    by (metis set_map)
  show ?thesis
    by (simp add: country_exposure_def rating_exposure_def set_sort_values [OF assms] d k
        groupby_sum_zero)
qed

theorem exposure_keys_witness:
  "argsort_ok (argsort exact) \<and>
   map fst (country_exposure exact small_table) = [Txt ''US'', Txt ''FR'', Txt ''DE''] \<and>
   map fst (rating_exposure exact small_table) = [Txt ''AAA'', Txt ''BBB''] \<and>
   (Txt ''DE'', 0) \<in> set (country_exposure exact small_table) \<and>
   fst ` set (country_exposure exact small_table) = Country ` set small_table - {Blank} \<and>
   distinct (map fst (country_exposure exact small_table))"
proof -
  have a: "map fst (country_exposure exact small_table) = [Txt ''US'', Txt ''FR'', Txt ''DE'']"
    by code_simp
  have b: "map fst (rating_exposure exact small_table) = [Txt ''AAA'', Txt ''BBB'']"
    by code_simp
  have c: "(Txt ''DE'', 0) \<in> set (country_exposure exact small_table)"
    by code_simp
  note t = exposure_keys [OF exact_ok, of small_table]
  from t have d: "fst ` set (country_exposure exact small_table) = Country ` set small_table - {Blank}"
    by (elim conjE)
  from t have e: "distinct (map fst (country_exposure exact small_table))"
    by (elim conjE)
  from exact_ok a b c d e show ?thesis by (intro conjI)
qed

text \<open>
An empty country cell occurs in the table and is not a key of the exposure.
\<close>

theorem blank_country_no_key:
  "Blank \<in> Country ` set blank_country \<and> Blank \<notin> fst ` set (country_exposure exact blank_country)"
  by code_simp

subsection \<open>Exposure sums\<close>

text \<open>
  C5, as the code has it. Let no row of the filtered table have an empty country or an
  empty rating. Then the country groups and the rating groups are each a partition of the
  table: the groups have distinct keys and hold, together, every row once. The country
  exposure has, for each country group, the float sum of the present weights of the
  group, and the rating exposure likewise; so the weights that the two views add up are
  the same collection, the present weights of the table. What the views do not promise
  is that their totals agree to the last digit: each group sum is rounded on its own. The
  totals, taken exactly, are equal to each other and to the exact sum of the present
  weights when no group sum is rounded.
\<close>

theorem exposure_partition:
  fixes rt :: "'n::{linorder,comm_monoid_add} runtime"
  assumes "\<forall>r \<in> set df. Country r \<noteq> Blank \<and> Rating r \<noteq> Blank"
    and "argsort_ok (argsort rt)"
  shows
    "mset (concat (map snd (groupby Country df))) = mset df \<and>
     mset (concat (map snd (groupby Rating df))) = mset df \<and>
     distinct (map fst (groupby Country df)) \<and>
     distinct (map fst (groupby Rating df)) \<and>
     mset (country_exposure rt df)
       = mset (map (\<lambda>(k, g). (k, group_total (fsum rt) (List.map_filter Weight g))) (groupby Country df)) \<and>
     mset (rating_exposure rt df)
       = mset (map (\<lambda>(k, g). (k, group_total (fsum rt) (List.map_filter Weight g))) (groupby Rating df)) \<and>
     mset (concat (map (\<lambda>(k, g). List.map_filter Weight g) (groupby Country df)))
       = mset (List.map_filter Weight df) \<and>
     mset (concat (map (\<lambda>(k, g). List.map_filter Weight g) (groupby Rating df)))
       = mset (List.map_filter Weight df) \<and>
     ((\<forall>(k, g) \<in> set (groupby Country df) \<union> set (groupby Rating df).
          fsum rt (List.map_filter Weight g) = sum_list (List.map_filter Weight g)) \<longrightarrow>
        sum_list (map snd (country_exposure rt df)) = sum_list (map snd (rating_exposure rt df)) \<and>
        sum_list (map snd (rating_exposure rt df)) = sum_list (List.map_filter Weight df))"
proof -
  have c: "filter (\<lambda>r. Country r \<noteq> Blank) df = df" and r: "filter (\<lambda>r. Rating r \<noteq> Blank) df = df"
    using assms(1) by (simp_all add: filter_id_conv)
  have 1: "mset (concat (map snd (groupby Country df))) = mset df"
    by (simp only: mset_groupby c)
  have 2: "mset (concat (map snd (groupby Rating df))) = mset df"
    by (simp only: mset_groupby r)
  have 5: "mset (country_exposure rt df)
       = mset (map (\<lambda>(k, g). (k, group_total (fsum rt) (List.map_filter Weight g))) (groupby Country df))"
    unfolding country_exposure_def by (rule mset_exposure [OF assms(2)])
  have 6: "mset (rating_exposure rt df)
       = mset (map (\<lambda>(k, g). (k, group_total (fsum rt) (List.map_filter Weight g))) (groupby Rating df))"
    unfolding rating_exposure_def by (rule mset_exposure [OF assms(2)])
  have 7: "mset (concat (map (\<lambda>(k, g). List.map_filter Weight g) (groupby Country df)))
       = mset (List.map_filter Weight df)"
    by (simp only: mset_weights_groupby c)
  have 8: "mset (concat (map (\<lambda>(k, g). List.map_filter Weight g) (groupby Rating df)))
       = mset (List.map_filter Weight df)"
    by (simp only: mset_weights_groupby r)
  have 9: "(\<forall>(k, g) \<in> set (groupby Country df) \<union> set (groupby Rating df).
          fsum rt (List.map_filter Weight g) = sum_list (List.map_filter Weight g)) \<longrightarrow>
        sum_list (map snd (country_exposure rt df)) = sum_list (map snd (rating_exposure rt df)) \<and>
        sum_list (map snd (rating_exposure rt df)) = sum_list (List.map_filter Weight df)"
  proof
    assume ex: "\<forall>(k, g) \<in> set (groupby Country df) \<union> set (groupby Rating df).
          fsum rt (List.map_filter Weight g) = sum_list (List.map_filter Weight g)"
    then have exc: "\<forall>(k, g) \<in> set (groupby Country df).
          fsum rt (List.map_filter Weight g) = sum_list (List.map_filter Weight g)"
      and exr: "\<forall>(k, g) \<in> set (groupby Rating df).
          fsum rt (List.map_filter Weight g) = sum_list (List.map_filter Weight g)"
      by blast+
    have "sum_list (map snd (country_exposure rt df)) = sum_list (List.map_filter Weight df)"
      unfolding country_exposure_def using exact_exposure_sum [OF assms(2) exc] by (simp only: c)
    moreover have "sum_list (map snd (rating_exposure rt df)) = sum_list (List.map_filter Weight df)"
      unfolding rating_exposure_def using exact_exposure_sum [OF assms(2) exr] by (simp only: r)
    ultimately show "sum_list (map snd (country_exposure rt df)) = sum_list (map snd (rating_exposure rt df)) \<and>
        sum_list (map snd (rating_exposure rt df)) = sum_list (List.map_filter Weight df)"
      by simp
  qed
  from 1 2 distinct_groupby_keys [of Country df] distinct_groupby_keys [of Rating df] 5 6 7 8 9
  show ?thesis by (intro conjI)
qed

theorem exposure_partition_witness:
  "list_all (\<lambda>r. Country r \<noteq> Blank \<and> Rating r \<noteq> Blank) small_table \<and>
   argsort_ok (argsort exact) \<and>
   country_exposure exact small_table = [(Txt ''US'', 17 / 2), (Txt ''FR'', 5), (Txt ''DE'', 0)] \<and>
   rating_exposure exact small_table = [(Txt ''AAA'', 10), (Txt ''BBB'', 7 / 2)] \<and>
   mset (concat (map (\<lambda>(k, g). List.map_filter Weight g) (groupby Country small_table)))
     = mset (concat (map (\<lambda>(k, g). List.map_filter Weight g) (groupby Rating small_table))) \<and>
   sum_list (map snd (country_exposure exact small_table)) = sum_list (map snd (rating_exposure exact small_table)) \<and>
   sum_list (List.map_filter Weight small_table) = 27 / 2"
proof -
  have h: "\<forall>r \<in> set small_table. Country r \<noteq> Blank \<and> Rating r \<noteq> Blank"
    by (simp add: small_table_def holding_def)
  have l: "list_all (\<lambda>r. Country r \<noteq> Blank \<and> Rating r \<noteq> Blank) small_table"
    using h by (simp add: list_all_iff)
  have ex: "\<forall>(k, g) \<in> set (groupby Country small_table) \<union> set (groupby Rating small_table).
      fsum exact (List.map_filter Weight g) = sum_list (List.map_filter Weight g)"
    by (simp add: exact_def)
  note t = exposure_partition [OF h exact_ok]
  have a: "country_exposure exact small_table = [(Txt ''US'', 17 / 2), (Txt ''FR'', 5), (Txt ''DE'', 0)]"
    by code_simp
  have b: "rating_exposure exact small_table = [(Txt ''AAA'', 10), (Txt ''BBB'', 7 / 2)]"
    by code_simp
  note t7 = t [THEN conjunct2, THEN conjunct2, THEN conjunct2, THEN conjunct2, THEN conjunct2, THEN conjunct2, THEN conjunct1]
  note t8 = t [THEN conjunct2, THEN conjunct2, THEN conjunct2, THEN conjunct2, THEN conjunct2, THEN conjunct2, THEN conjunct2, THEN conjunct1]
  note t9 = t [THEN conjunct2, THEN conjunct2, THEN conjunct2, THEN conjunct2, THEN conjunct2, THEN conjunct2, THEN conjunct2, THEN conjunct2, THEN mp, OF ex, THEN conjunct1]
  have c: "mset (concat (map (\<lambda>(k, g). List.map_filter Weight g) (groupby Country small_table)))
     = mset (concat (map (\<lambda>(k, g). List.map_filter Weight g) (groupby Rating small_table)))"
    by (rule trans [OF t7 t8 [symmetric]])
  have d: "sum_list (map snd (country_exposure exact small_table))
      = sum_list (map snd (rating_exposure exact small_table))"
    by (rule t9)
  have e: "sum_list (List.map_filter Weight small_table) = 27 / 2"
    by code_simp
  from l exact_ok a b c d e show ?thesis by (intro conjI)
qed

text \<open>
  With a holding whose country cell is empty the totals differ: the country exposures
  add up to 2, the rating exposures to 7.
\<close>

theorem blank_country_sums_differ:
  "sum_list (map snd (country_exposure exact blank_country))
     \<noteq> sum_list (map snd (rating_exposure exact blank_country))"
  by code_simp

subsection \<open>Top holdings\<close>

text \<open>
  C3, as the code has it. The top holdings have length min(10, number of records): the
  call \<^verbatim>\<open>nlargest(10, 'Weight')\<close> does not drop records without a weight. The result is a
  ranked part \<open>P\<close> followed by a padding. \<open>P\<close> holds min(10, number of records with a
  weight) records, all with a weight, in descending order of weight, and no weight left
  out of \<open>P\<close> exceeds a weight in \<open>P\<close>. Records of equal weight are in the order of the rows
  when the table has more than ten records (pandas then ranks with a stable sort); with
  at most ten records their order is the one numpy's default sort gives, which is not
  fixed. The padding holds the first records without a weight, in the order of the rows,
  as many as fill the ten places. With at most ten records all of them are returned.
\<close>

theorem top_holdings_ranking:
  assumes "argsort_ok (argsort rt)"
  shows "\<exists>P. nlargest (argsort rt) 10 Weight df
         = P @ take (10 - length (dropna Weight df)) (nan_index Weight df) \<and>
     top_holdings rt df = map (\<lambda>r. (Security r, Weight r))
         (P @ take (10 - length (dropna Weight df)) (nan_index Weight df)) \<and>
     length (top_holdings rt df) = min 10 (length df) \<and>
     length P = min 10 (length (dropna Weight df)) \<and>
     mset P \<subseteq># mset (dropna Weight df) \<and>
     (\<forall>r \<in> set P. Weight r \<noteq> None) \<and>
     sorted_wrt (\<lambda>r s. num Weight s \<le> num Weight r) P \<and>
     (\<forall>r \<in> set P. \<forall>s \<in># mset (dropna Weight df) - mset P. num Weight s \<le> num Weight r) \<and>
     (10 < length df \<longrightarrow>
        (\<forall>w. prefix (filter (\<lambda>r. Weight r = Some w) P) (filter (\<lambda>r. Weight r = Some w) df))) \<and>
     (\<forall>r \<in> set (take (10 - length (dropna Weight df)) (nan_index Weight df)). Weight r = None) \<and>
     (length df \<le> 10 \<longrightarrow>
        mset (P @ take (10 - length (dropna Weight df)) (nan_index Weight df)) = mset df)"
proof -
  let ?A = "take (10 - length (dropna Weight df)) (nan_index Weight df)"
  obtain P where P: "nlargest (argsort rt) 10 Weight df = P @ ?A"
      "length P = min 10 (length (dropna Weight df))"
      "mset P \<subseteq># mset (dropna Weight df)"
      "sorted_wrt (\<lambda>x y. num Weight y \<le> num Weight x) P"
      "\<forall>x \<in> set P. \<forall>y \<in># mset (dropna Weight df) - mset P. num Weight y \<le> num Weight x"
      "10 < length df \<longrightarrow> P = take 10 (mergesort_desc (num Weight) (dropna Weight df))"
      "length df \<le> 10 \<longrightarrow> mset P = mset (dropna Weight df)"
    using nlargest_shape [OF assms, of 10 Weight df] by blast
  have 2: "top_holdings rt df = map (\<lambda>r. (Security r, Weight r)) (P @ ?A)"
    by (simp only: top_holdings_def P(1))
  have 3: "length (top_holdings rt df) = min 10 (length df)"
    by (simp add: top_holdings_def length_nlargest [OF assms])
  have 6: "\<forall>r \<in> set P. Weight r \<noteq> None"
  proof
    fix r assume "r \<in> set P"
    then have "r \<in># mset (dropna Weight df)"
      using P(3) by (metis mset_subset_eqD set_mset_mset)
    then show "Weight r \<noteq> None" by (rule in_dropna)
  qed
  have 9: "10 < length df \<longrightarrow>
        (\<forall>w. prefix (filter (\<lambda>r. Weight r = Some w) P) (filter (\<lambda>r. Weight r = Some w) df))"
  proof (intro impI allI)
    fix w assume "10 < length df"
    with P(6) have "P = take 10 (mergesort_desc (num Weight) (dropna Weight df))" by simp
    then show "prefix (filter (\<lambda>r. Weight r = Some w) P) (filter (\<lambda>r. Weight r = Some w) df)"
      by (simp only: ranked_stable)
  qed
  have 10: "\<forall>r \<in> set ?A. Weight r = None"
    by (intro ballI) (rule in_nan_index)
  have 11: "length df \<le> 10 \<longrightarrow> mset (P @ ?A) = mset df"
  proof
    assume le: "length df \<le> 10"
    with P(7) have "mset P = mset (dropna Weight df)" by simp
    moreover have "?A = nan_index Weight df"
      using le length_dropna_nan [of Weight df] by simp
    ultimately show "mset (P @ ?A) = mset df"
      using mset_dropna_nan [of Weight df] by simp
  qed
  show ?thesis
    by (intro exI [of _ P] conjI) (fact P(1) 2 3 P(2) P(3) 6 P(4) P(5) 9 10 11)+
qed

theorem top_holdings_ranking_witness:
  "argsort_ok (argsort exact) \<and> argsort_ok (argsort exact_reversing) \<and>
   top_holdings exact small_table =
     [(Txt ''A'', Some 5), (Txt ''D'', Some 5), (Txt ''C'', Some (7 / 2)), (Txt ''B'', None)] \<and>
   top_holdings exact_reversing small_table =
     [(Txt ''D'', Some 5), (Txt ''A'', Some 5), (Txt ''C'', Some (7 / 2)), (Txt ''B'', None)] \<and>
   top_holdings exact twelve_issuers =
     [(Txt ''S02'', Some 12), (Txt ''S11'', Some 11), (Txt ''S10'', Some 10), (Txt ''S09'', Some 9),
      (Txt ''S08'', Some 8), (Txt ''S07'', Some 7), (Txt ''S06'', Some (13 / 2)), (Txt ''S05'', Some 5),
      (Txt ''S04'', Some (9 / 2)), (Txt ''S03'', Some 3)] \<and>
   top_holdings exact_reversing twelve_issuers = top_holdings exact twelve_issuers \<and>
   length (top_holdings exact small_table) = min 10 (length small_table) \<and>
   length (top_holdings exact_reversing twelve_issuers) = min 10 (length twelve_issuers)"
proof -
  have a: "top_holdings exact small_table =
     [(Txt ''A'', Some 5), (Txt ''D'', Some 5), (Txt ''C'', Some (7 / 2)), (Txt ''B'', None)]"
    by code_simp
  have b: "top_holdings exact_reversing small_table =
     [(Txt ''D'', Some 5), (Txt ''A'', Some 5), (Txt ''C'', Some (7 / 2)), (Txt ''B'', None)]"
    by code_simp
  have c: "top_holdings exact twelve_issuers =
     [(Txt ''S02'', Some 12), (Txt ''S11'', Some 11), (Txt ''S10'', Some 10), (Txt ''S09'', Some 9),
      (Txt ''S08'', Some 8), (Txt ''S07'', Some 7), (Txt ''S06'', Some (13 / 2)), (Txt ''S05'', Some 5),
      (Txt ''S04'', Some (9 / 2)), (Txt ''S03'', Some 3)]"
    by code_simp
  have d: "top_holdings exact_reversing twelve_issuers = top_holdings exact twelve_issuers"
    by code_simp
  from top_holdings_ranking [OF exact_ok, of small_table]
  have e: "length (top_holdings exact small_table) = min 10 (length small_table)"
    by (elim exE conjE)
  from top_holdings_ranking [OF exact_reversing_ok, of twelve_issuers]
  have f: "length (top_holdings exact_reversing twelve_issuers) = min 10 (length twelve_issuers)"
    by (elim exE conjE)
  from exact_ok exact_reversing_ok a b c d e f show ?thesis by (intro conjI)
qed

text \<open>
  The claim as the specification words it fails on the two corporate bonds of the
  scenario: one record has a weight, and the top holdings have two entries, the second
  without a weight.
\<close>

theorem top_holdings_padded:
  "length (top_holdings exact scenario_corporate) \<noteq> min 10 (length (dropna Weight scenario_corporate)) \<and>
   (Txt ''B'', None) \<in> set (top_holdings exact scenario_corporate)"
  by code_simp

subsection \<open>Top issuers\<close>

text \<open>
  C4. The top issuers are min(10, number of issuers) entries, at most ten, with distinct
  issuers and ascending sums. Each entry is an issuer of the filtered table (an empty
  issuer cell is none) with the sum of the present weights of its records, which is 0
  for an issuer none of whose records has a weight. An issuer that is left out has a sum
  no greater than any sum kept, and the entries are those of the first ten in descending
  order of sum, so the cut comes before the ascending sort. With at most ten issuers
  every issuer is an entry, those with the sum 0 included.
\<close>

theorem top_issuers_ranking:
  assumes "argsort_ok (argsort rt)"
  shows
   "length (top_issuers rt df) = min 10 (card (Issuer ` set df - {Blank})) \<and>
    length (top_issuers rt df) \<le> 10 \<and>
    sorted (map snd (top_issuers rt df)) \<and>
    distinct (map fst (top_issuers rt df)) \<and>
    (\<forall>(k, s) \<in> set (top_issuers rt df).
       k \<in> Issuer ` set df - {Blank} \<and>
       s = group_total (fsum rt) (List.map_filter Weight (filter (\<lambda>r. Issuer r = k) df))) \<and>
    (\<forall>k \<in> Issuer ` set df - {Blank}. k \<notin> fst ` set (top_issuers rt df) \<longrightarrow>
       (\<forall>p \<in> set (top_issuers rt df).
          group_total (fsum rt) (List.map_filter Weight (filter (\<lambda>r. Issuer r = k) df)) \<le> snd p)) \<and>
    mset (top_issuers rt df) = mset (take 10 (mergesort_desc snd (groupby_sum (fsum rt) Issuer df))) \<and>
    (card (Issuer ` set df - {Blank}) \<le> 10 \<longrightarrow>
       fst ` set (top_issuers rt df) = Issuer ` set df - {Blank}) \<and>
    (\<forall>k \<in> Issuer ` set df - {Blank}.
       (\<forall>r \<in> set df. Issuer r = k \<longrightarrow> Weight r = None) \<longrightarrow>
       card (Issuer ` set df - {Blank}) \<le> 10 \<longrightarrow> (k, 0) \<in> set (top_issuers rt df))"
proof -
  let ?G = "groupby_sum (fsum rt) Issuer df"
  let ?sum = "\<lambda>k. group_total (fsum rt) (List.map_filter Weight (filter (\<lambda>r. Issuer r = k) df))"
  have shape: "mset (top_issuers rt df) \<subseteq># mset ?G" "sorted (map snd (top_issuers rt df))"
      "length (top_issuers rt df) = min 10 (length ?G)"
      "\<forall>x \<in> set (top_issuers rt df). \<forall>y \<in># mset ?G - mset (top_issuers rt df). snd y \<le> snd x"
      "mset (top_issuers rt df) = mset (take 10 (mergesort_desc snd ?G))"
    using top_issuers_shape [OF assms, of df] by blast+
  have 1: "length (top_issuers rt df) = min 10 (card (Issuer ` set df - {Blank}))"
    using shape(3) by (simp only: length_groupby_sum)
  then have 2: "length (top_issuers rt df) \<le> 10" by simp
  have 4: "distinct (map fst (top_issuers rt df))"
    using shape(1) distinct_groupby_sum_keys by (rule distinct_map_submset)
  have 5: "\<forall>(k, s) \<in> set (top_issuers rt df). k \<in> Issuer ` set df - {Blank} \<and> s = ?sum k"
    using top_issuers_entries [OF assms, of _ _ df] by blast
  have 6: "\<forall>k \<in> Issuer ` set df - {Blank}. k \<notin> fst ` set (top_issuers rt df) \<longrightarrow>
       (\<forall>p \<in> set (top_issuers rt df). ?sum k \<le> snd p)"
  proof (intro ballI impI)
    fix k p
    assume k: "k \<in> Issuer ` set df - {Blank}" and out: "k \<notin> fst ` set (top_issuers rt df)"
      and p: "p \<in> set (top_issuers rt df)"
    have "(k, ?sum k) \<in> set ?G"
      using k by (simp add: groupby_sum_mem)
    moreover have "(k, ?sum k) \<notin> set (top_issuers rt df)"
      using out by force
    ultimately have "(k, ?sum k) \<in># mset ?G - mset (top_issuers rt df)"
      by (rule left_out)
    with p have "snd (k, ?sum k) \<le> snd p"
      using shape(4) by blast
    then show "?sum k \<le> snd p" by simp
  qed
  have 8: "card (Issuer ` set df - {Blank}) \<le> 10 \<longrightarrow>
       fst ` set (top_issuers rt df) = Issuer ` set df - {Blank}"
    using top_issuers_keys_all [OF assms] by blast
  have 9: "\<forall>k \<in> Issuer ` set df - {Blank}.
       (\<forall>r \<in> set df. Issuer r = k \<longrightarrow> Weight r = None) \<longrightarrow>
       card (Issuer ` set df - {Blank}) \<le> 10 \<longrightarrow> (k, 0) \<in> set (top_issuers rt df)"
    using top_issuers_all [OF assms] groupby_sum_zero [of _ Issuer df "fsum rt"] by blast
  from 1 2 shape(2) 4 5 6 shape(5) 8 9 show ?thesis by (intro conjI)
qed

theorem top_issuers_ranking_witness:
  "argsort_ok (argsort exact) \<and>
   top_issuers exact twelve_issuers =
     [(Txt ''I04'', 9 / 2), (Txt ''I05'', 5), (Txt ''I03'', 6), (Txt ''I06'', 13 / 2), (Txt ''I07'', 7),
      (Txt ''I08'', 8), (Txt ''I09'', 9), (Txt ''I10'', 10), (Txt ''I11'', 11), (Txt ''I02'', 12)] \<and>
   top_issuers exact_reversing twelve_issuers = top_issuers exact twelve_issuers \<and>
   card (Issuer ` set twelve_issuers - {Blank}) = 12 \<and>
   length (top_issuers exact twelve_issuers) = 10 \<and>
   sorted (map snd (top_issuers exact twelve_issuers)) \<and>
   take 10 (sort_values (argsort exact) True (\<lambda>p. Some (snd p)) (groupby_sum (fsum exact) Issuer twelve_issuers))
     \<noteq> top_issuers exact twelve_issuers \<and>
   top_issuers exact scenario_corporate = [(Txt ''Y'', 0), (Txt ''X'', 5)]"
proof -
  have a: "top_issuers exact twelve_issuers =
     [(Txt ''I04'', 9 / 2), (Txt ''I05'', 5), (Txt ''I03'', 6), (Txt ''I06'', 13 / 2), (Txt ''I07'', 7),
      (Txt ''I08'', 8), (Txt ''I09'', 9), (Txt ''I10'', 10), (Txt ''I11'', 11), (Txt ''I02'', 12)]"
    by code_simp
  have b: "top_issuers exact_reversing twelve_issuers = top_issuers exact twelve_issuers"
    by code_simp
  have "length (groupby_sum (fsum exact) Issuer twelve_issuers) = 12"
    by code_simp
  then have c: "card (Issuer ` set twelve_issuers - {Blank}) = 12"
    by (simp only: length_groupby_sum)
  have d: "take 10 (sort_values (argsort exact) True (\<lambda>p. Some (snd p)) (groupby_sum (fsum exact) Issuer twelve_issuers))
     \<noteq> top_issuers exact twelve_issuers"
    by code_simp
  have e: "top_issuers exact scenario_corporate = [(Txt ''Y'', 0), (Txt ''X'', 5)]"
    by code_simp
  note t = top_issuers_ranking [OF exact_ok, of twelve_issuers]
  from t have "length (top_issuers exact twelve_issuers)
      = min 10 (card (Issuer ` set twelve_issuers - {Blank}))"
    by (elim conjE)
  with c have f: "length (top_issuers exact twelve_issuers) = 10" by simp
  from t have g: "sorted (map snd (top_issuers exact twelve_issuers))" by (elim conjE)
  from exact_ok a b c f g d e show ?thesis by (intro conjI)
qed

subsection \<open>Records without a weight\<close>




subsection \<open>The scenario\<close>

text \<open>
  C1, as the code has it. Whatever runtime reads \<^verbatim>\<open>"5"\<close> as 5, rejects \<^verbatim>\<open>"bad"\<close>, sums
  the single number 5 to 5 and sorts as \<^verbatim>\<open>argsort\<close> promises: the filtered set of the
  scenario has the two records \<^verbatim>\<open>A\<close> and \<^verbatim>\<open>B\<close>, the weight of \<^verbatim>\<open>B\<close> is absent, and the
  views are: top holdings \<^verbatim>\<open>A\<close> with 5, then \<^verbatim>\<open>B\<close> without a weight; country exposure
  \<^verbatim>\<open>US\<close> 5, \<^verbatim>\<open>DE\<close> 0; rating exposure \<^verbatim>\<open>AAA\<close> 5, \<^verbatim>\<open>BBB\<close> 0; top issuers \<^verbatim>\<open>Y\<close> 0,
  \<^verbatim>\<open>X\<close> 5.
\<close>

theorem scenario_views:
  fixes rt :: "rat runtime"
  assumes "str_to_float rt ''5'' = Some 5" and "str_to_float rt ''bad'' = None"
    and "fsum rt [5] = 5" and "argsort_ok (argsort rt)"
  shows "map Security (filtered scenario) = [Txt ''A'', Txt ''B''] \<and>
    map Weight (coerced rt scenario) = [Some 5, None] \<and>
    process_data rt scenario =
      Inr ([(Txt ''A'', Some 5), (Txt ''B'', None)],
           [(Txt ''US'', 5), (Txt ''DE'', 0)],
           [(Txt ''AAA'', 5), (Txt ''BBB'', 0)],
           [(Txt ''Y'', 0), (Txt ''X'', 5)])"
proof -
  note ok = assms(4)
  let ?v = "\<lambda>p :: cell \<times> rat. Some (snd p)"
  have 1: "map Security (filtered scenario) = [Txt ''A'', Txt ''B'']"
    by (simp add: filtered_def filter_corporate_filter scenario_def row_of_new_columns)
  have 2: "map Weight (coerced rt scenario) = [Some 5, None]"
    by (simp add: scenario_coerced [OF assms(1,2)] scenario_corporate_def holding_def)
  have "length scenario_corporate \<le> 10"
    by (simp add: scenario_corporate_def)
  moreover have "distinct (map (num Weight) (dropna Weight scenario_corporate))"
    by code_simp
  ultimately have "nlargest (argsort rt) 10 Weight scenario_corporate
      = rev (sort_key (num Weight) (dropna Weight scenario_corporate)) @ nan_index Weight scenario_corporate"
    by (rule nlargest_small [OF ok])
  moreover have "map (\<lambda>r. (Security r, Weight r))
      (rev (sort_key (num Weight) (dropna Weight scenario_corporate)) @ nan_index Weight scenario_corporate)
      = [(Txt ''A'', Some 5), (Txt ''B'', None)]"
    by code_simp
  ultimately have th: "top_holdings rt scenario_corporate = [(Txt ''A'', Some 5), (Txt ''B'', None)]"
    by (simp only: top_holdings_def)
  have "map (\<lambda>(k, g). (k, List.map_filter Weight g)) (groupby Country scenario_corporate)
      = [(Txt ''DE'', []), (Txt ''US'', [5])]"
    by code_simp
  then have gc: "groupby_sum (fsum rt) Country scenario_corporate = [(Txt ''DE'', 0), (Txt ''US'', 5)]"
    by (simp add: groupby_sum_alt group_total_def assms(3))
  have "map (\<lambda>(k, g). (k, List.map_filter Weight g)) (groupby Rating scenario_corporate)
      = [(Txt ''AAA'', [5]), (Txt ''BBB'', [])]"
    by code_simp
  then have gr: "groupby_sum (fsum rt) Rating scenario_corporate = [(Txt ''AAA'', 5), (Txt ''BBB'', 0)]"
    by (simp add: groupby_sum_alt group_total_def assms(3))
  have "map (\<lambda>(k, g). (k, List.map_filter Weight g)) (groupby Issuer scenario_corporate)
      = [(Txt ''X'', [5]), (Txt ''Y'', [])]"
    by code_simp
  then have gi: "groupby_sum (fsum rt) Issuer scenario_corporate = [(Txt ''X'', 5), (Txt ''Y'', 0)]"
    by (simp add: groupby_sum_alt group_total_def assms(3))
  have ce: "country_exposure rt scenario_corporate = [(Txt ''US'', 5), (Txt ''DE'', 0)]"
    unfolding country_exposure_def gc
    by (subst sort_values_distinct [OF ok]) simp_all
  have re: "rating_exposure rt scenario_corporate = [(Txt ''AAA'', 5), (Txt ''BBB'', 0)]"
    unfolding rating_exposure_def gr
    by (subst sort_values_distinct [OF ok]) simp_all
  have "nlargest (argsort rt) 10 ?v [(Txt ''X'', 5), (Txt ''Y'', 0)] = [(Txt ''X'', 5), (Txt ''Y'', 0)]"
    by (subst nlargest_small [OF ok]) simp_all
  then have ti: "top_issuers rt scenario_corporate = [(Txt ''Y'', 0), (Txt ''X'', 5)]"
    unfolding top_issuers_def gi
    by (simp only:) (subst sort_values_distinct [OF ok], simp_all)
  have "length (columns scenario) = 6"
    by (simp add: scenario_def)
  then have 3: "process_data rt scenario =
      Inr ([(Txt ''A'', Some 5), (Txt ''B'', None)], [(Txt ''US'', 5), (Txt ''DE'', 0)],
           [(Txt ''AAA'', 5), (Txt ''BBB'', 0)], [(Txt ''Y'', 0), (Txt ''X'', 5)])"
    by (simp add: process_data_views scenario_coerced [OF assms(1,2)] th ce re ti)
  from 1 2 3 show ?thesis by (intro conjI)
qed

theorem scenario_views_witness:
  "str_to_float exact ''5'' = Some 5 \<and> str_to_float exact ''bad'' = None \<and>
   fsum exact [5] = 5 \<and> argsort_ok (argsort exact) \<and>
   process_data exact scenario =
      Inr ([(Txt ''A'', Some 5), (Txt ''B'', None)],
           [(Txt ''US'', 5), (Txt ''DE'', 0)],
           [(Txt ''AAA'', 5), (Txt ''BBB'', 0)],
           [(Txt ''Y'', 0), (Txt ''X'', 5)])"
proof -
  have a: "str_to_float exact ''5'' = Some 5" by (simp add: exact_def decimal_5)
  have b: "str_to_float exact ''bad'' = None" by (simp add: exact_def decimal_bad)
  have c: "fsum exact [5] = 5" by (simp add: exact_def)
  from scenario_views [OF a b c exact_ok] a b c exact_ok show ?thesis by (intro conjI) simp_all
qed

text \<open>
  The views the specification lists for the scenario are not the views the code returns:
  the groups of \<^verbatim>\<open>DE\<close>, \<^verbatim>\<open>BBB\<close> and \<^verbatim>\<open>Y\<close> are there with the sum 0, and \<^verbatim>\<open>B\<close> is a top
  holding.
\<close>

theorem scenario_views_differ:
  "process_data exact scenario \<noteq>
     Inr ([(Txt ''A'', Some 5)], [(Txt ''US'', 5)], [(Txt ''AAA'', 5)], [(Txt ''X'', 5)])"
  by code_simp

end
